theory Spec2Isabelle
  imports Complex_Main "HOL-Library.Word" "HOL-Library.Log_Nat" "HOL-Library.Signed_Division"
begin

unbundle bit_operations_syntax

section \<open>Wafer defect detection: the image-analysis pipeline\<close>

text \<open>
  The development embeds the five pipeline functions of \<^verbatim>\<open>defect_processing\<close>
  (\<^verbatim>\<open>extract_lens_mask\<close>, \<^verbatim>\<open>correct_illumination\<close>, \<^verbatim>\<open>detect_defects\<close>,
  \<^verbatim>\<open>analyze_defects\<close>, \<^verbatim>\<open>build_annotated_display\<close>), the pass/fail computation of
  \<^verbatim>\<open>btn_analyze_click\<close>, and the older \<^verbatim>\<open>analyzeDefects\<close> of the monolithic
  \<^verbatim>\<open>UI.h\<close>, whose scratch thresholds differ.

  The program is written against OpenCV. Calls whose meaning is a short, documented formula
  (\<^verbatim>\<open>threshold\<close>, \<^verbatim>\<open>erode\<close>/\<^verbatim>\<open>dilate\<close> and \<^verbatim>\<open>morphologyEx\<close>, \<^verbatim>\<open>bitwise_and\<close>,
  \<^verbatim>\<open>countNonZero\<close>, \<^verbatim>\<open>Mat::zeros\<close>, \<^verbatim>\<open>contourArea\<close>, \<^verbatim>\<open>boundingRect\<close>, the
  three moments that are read) are defined here after the library's documentation. The other
  calls (\<^verbatim>\<open>findContours\<close>, \<^verbatim>\<open>drawContours\<close>, \<^verbatim>\<open>getStructuringElement\<close>, CLAHE,
  \<^verbatim>\<open>GaussianBlur\<close>, \<^verbatim>\<open>divide\<close>, \<^verbatim>\<open>normalize\<close>, \<^verbatim>\<open>cvtColor\<close>, \<^verbatim>\<open>circle\<close>,
  \<^verbatim>\<open>putText\<close>, \<^verbatim>\<open>sqrt\<close>) are parameters: the fields of a record \<open>cv_lib\<close> that every
  pipeline function receives. These calls are taken to return; of the library's exceptions
  only the size mismatch of \<^verbatim>\<open>bitwise_and\<close> is a value of the model.

  Names are those of the source. A parameter the source calls \<^verbatim>\<open>mask\<close> is \<open>msk\<close>,
  since \<open>mask\<close> is a constant of the word library.
\<close>

subsection \<open>Floating point\<close>

text \<open>
  A finite \<^verbatim>\<open>float\<close> or \<^verbatim>\<open>double\<close> is the rational number it denotes. An operation
  of the program is the exact operation followed by rounding to the nearest representable
  value, ties to the even significand (IEEE 754 binary32 and binary64, precision 24 and 53,
  least normal exponent -126 and -1022). Overflow to infinity is not modelled: every quantity
  of the pipeline is bounded by a pixel count or a polygon area. A quotient by zero, which
  is NaN or an infinity in the program, is \<open>None\<close> (see \<open>centroid\<close>).
\<close>

type_synonym float32 = rat
type_synonym double = rat

definition round_half_even :: "rat \<Rightarrow> int" where
  "round_half_even x =
     (let n = \<lfloor>x\<rfloor>; r = x - of_int n
      in if r < 1 / 2 then n else if 1 / 2 < r then n + 1 else if even n then n else n + 1)"

text \<open>\<open>ilog2 x\<close> is the exponent \<open>e\<close> with \<open>2 powi e \<le> x < 2 powi (e + 1)\<close>, for \<open>0 < x\<close>.\<close>

definition ilog2 :: "rat \<Rightarrow> int" where
  "ilog2 x =
     (let (a, b) = quotient_of x; e0 = bitlen a - bitlen b
      in if 2 powi e0 \<le> x then e0 else e0 - 1)"

definition fl_exponent :: "int \<Rightarrow> rat \<Rightarrow> int" where
  "fl_exponent emin x = (if x = 0 then emin else max emin (ilog2 \<bar>x\<bar>))"

definition fl_round :: "nat \<Rightarrow> int \<Rightarrow> rat \<Rightarrow> rat" where
  "fl_round p emin x =
     (let u = 2 powi (fl_exponent emin x - int p + 1)
      in of_int (round_half_even (x / u)) * u)"

definition f32 :: "rat \<Rightarrow> float32" where
  "f32 = fl_round 24 (- 126)"

definition f64 :: "rat \<Rightarrow> double" where
  "f64 = fl_round 53 (- 1022)"

text \<open>\<^verbatim>\<open>FLT_EPSILON\<close> of \<^verbatim>\<open><cfloat>\<close>.\<close>

definition FLT_EPSILON :: rat where
  "FLT_EPSILON = 1 / 2 ^ 23"

text \<open>Conversion of a floating-point value to \<^verbatim>\<open>int\<close> truncates towards zero.\<close>

definition to_int :: "rat \<Rightarrow> int" where
  "to_int x = (if 0 \<le> x then \<lfloor>x\<rfloor> else \<lceil>x\<rceil>)"

subsection \<open>Contours and their geometry\<close>

text \<open>
  \<^verbatim>\<open>cv::Point\<close> is a pair of \<^verbatim>\<open>int\<close> coordinates \<open>(x, y)\<close>; a contour is a
  \<^verbatim>\<open>std::vector<cv::Point>\<close>.
\<close>

type_synonym Point = "int \<times> int"
type_synonym contour = "Point list"

record Rect =
  rect_x :: int
  rect_y :: int
  width :: int
  height :: int

text \<open>
  \<^verbatim>\<open>cv::contourArea(c)\<close> (\<^verbatim>\<open>oriented = false\<close>): the points are converted to
  \<^verbatim>\<open>Point2f\<close>, the loop accumulates \<^verbatim>\<open>a00 += (double)prev.x * p.y - (double)p.x * prev.y\<close>
  starting from the last point, and the result is \<^verbatim>\<open>fabs(a00 * 0.5)\<close>. The \<^verbatim>\<open>double\<close>
  accumulation is taken exact: its terms are integers, exact below \<open>2 ^ 53\<close>.
\<close>

definition Point2f :: "Point \<Rightarrow> float32 \<times> float32" where
  "Point2f p = (f32 (of_int (fst p)), f32 (of_int (snd p)))"

fun contourArea_loop :: "float32 \<times> float32 \<Rightarrow> Point list \<Rightarrow> double \<Rightarrow> double" where
  "contourArea_loop prev [] a00 = a00"
| "contourArea_loop prev (pt # pts) a00 =
     (let p = Point2f pt
      in contourArea_loop p pts (a00 + (fst prev * snd p - fst p * snd prev)))"

definition contourArea :: "contour \<Rightarrow> double" where
  "contourArea c =
     (if c = [] then 0 else \<bar>contourArea_loop (Point2f (last c)) c 0 * (1 / 2)\<bar>)"

text \<open>
  \<^verbatim>\<open>cv::boundingRect(c)\<close> of a point set: the smallest upright rectangle that holds every
  point, \<^verbatim>\<open>Rect(xmin, ymin, xmax - xmin + 1, ymax - ymin + 1)\<close>, and the empty
  rectangle for no points.
\<close>

definition boundingRect :: "contour \<Rightarrow> Rect" where
  "boundingRect c =
     (if c = [] then \<lparr>rect_x = 0, rect_y = 0, width = 0, height = 0\<rparr>
      else let xmin = Min (set (map fst c)); xmax = Max (set (map fst c));
               ymin = Min (set (map snd c)); ymax = Max (set (map snd c))
           in \<lparr>rect_x = xmin, rect_y = ymin, width = xmax - xmin + 1, height = ymax - ymin + 1\<rparr>)"

text \<open>
  \<^verbatim>\<open>cv::moments(c)\<close> of a contour (Green's formula), restricted to the three moments the
  program reads. With \<^verbatim>\<open>dxy = xi_1 * yi - xi * yi_1\<close> the loop accumulates
  \<^verbatim>\<open>a00 += dxy\<close>, \<^verbatim>\<open>a10 += dxy * (xi_1 + xi)\<close>, \<^verbatim>\<open>a01 += dxy * (yi_1 + yi)\<close>; when
  \<^verbatim>\<open>fabs(a00) > FLT_EPSILON\<close> the moments are \<^verbatim>\<open>a00 * db1_2\<close>, \<^verbatim>\<open>a10 * db1_6\<close>,
  \<^verbatim>\<open>a01 * db1_6\<close> with \<^verbatim>\<open>db1_2 = 0.5\<close>, \<^verbatim>\<open>db1_6 = 0.1666...\<close> negated when
  \<^verbatim>\<open>a00\<close> is negative, and all moments are zero otherwise.
\<close>

record Moments =
  m00 :: double
  m10 :: double
  m01 :: double

fun moments_loop :: "double \<times> double \<Rightarrow> Point list \<Rightarrow> double \<times> double \<times> double
    \<Rightarrow> double \<times> double \<times> double" where
  "moments_loop prev [] acc = acc"
| "moments_loop (xi_1, yi_1) (pt # pts) (a00, a10, a01) =
     (let xi = of_int (fst pt); yi = of_int (snd pt);
          dxy = xi_1 * yi - xi * yi_1;
          xii_1 = xi_1 + xi;
          yii_1 = yi_1 + yi
      in moments_loop (xi, yi) pts (a00 + dxy, a10 + dxy * xii_1, a01 + dxy * yii_1))"

definition moments :: "contour \<Rightarrow> Moments" where
  "moments c =
     (if c = [] then \<lparr>m00 = 0, m10 = 0, m01 = 0\<rparr>
      else let (a00, a10, a01) =
                 moments_loop (of_int (fst (last c)), of_int (snd (last c))) c (0, 0, 0)
           in if FLT_EPSILON < \<bar>a00\<bar>
              then let db1_2 = (if 0 < a00 then 1 / 2 else - (1 / 2));
                       db1_6 = (if 0 < a00 then f64 (1 / 6) else - f64 (1 / 6))
                   in \<lparr>m00 = a00 * db1_2, m10 = f64 (a10 * db1_6), m01 = f64 (a01 * db1_6)\<rparr>
              else \<lparr>m00 = 0, m10 = 0, m01 = 0\<rparr>)"

subsection \<open>The library interface\<close>

text \<open>
  An 8-bit single-channel \<^verbatim>\<open>cv::Mat\<close>: its dimensions and its pixels in row-major order.
\<close>

type_synonym u8 = "8 word"

record Mat =
  rows :: nat
  cols :: nat
  data :: "u8 list"

text \<open>
  The OpenCV calls that are parameters. \<open>'f\<close> is the type of 32-bit floating-point images,
  \<open>'c\<close> the type of 3-channel colour images. A colour is a \<^verbatim>\<open>cv::Scalar\<close> \<open>(b, g, r)\<close>.
\<close>

type_synonym Scalar = "nat \<times> nat \<times> nat"

record ('f, 'c) cv_lib =
  getStructuringElement :: "nat \<Rightarrow> nat \<Rightarrow> (int \<times> int) list"
  findContours :: "Mat \<Rightarrow> contour list"
  drawContours_filled :: "Mat \<Rightarrow> contour list \<Rightarrow> int \<Rightarrow> u8 \<Rightarrow> Mat"
  convertTo_32F :: "Mat \<Rightarrow> 'f"
  GaussianBlur :: "'f \<Rightarrow> 32 word \<times> 32 word \<Rightarrow> rat \<Rightarrow> 'f"
  add_scalar :: "'f \<Rightarrow> float32 \<Rightarrow> 'f"
  divide :: "'f \<Rightarrow> 'f \<Rightarrow> 'f"
  normalize_minmax :: "'f \<Rightarrow> rat \<Rightarrow> rat \<Rightarrow> Mat \<Rightarrow> Mat"
  clahe_apply :: "rat \<Rightarrow> nat \<times> nat \<Rightarrow> Mat \<Rightarrow> Mat"
  cvtColor_GRAY2BGR :: "Mat \<Rightarrow> 'c"
  drawContours :: "'c \<Rightarrow> contour list \<Rightarrow> int \<Rightarrow> Scalar \<Rightarrow> int \<Rightarrow> 'c"
  circle :: "'c \<Rightarrow> (float32 \<times> float32) option \<Rightarrow> int \<Rightarrow> Scalar \<Rightarrow> int \<Rightarrow> 'c"
  putText :: "'c \<Rightarrow> string \<Rightarrow> (int \<times> int) option \<Rightarrow> rat \<Rightarrow> Scalar \<Rightarrow> int \<Rightarrow> 'c"
  sqrtf :: "float32 \<Rightarrow> float32"

subsection \<open>Defect classification\<close>

text \<open>
  \<^verbatim>\<open>struct Defect\<close> of \<^verbatim>\<open>defect_utils.h\<close>. The centre is \<open>None\<close> when a coordinate
  is not a finite number (a quotient by a zero \<^verbatim>\<open>m00\<close>).
\<close>

record Defect =
  center :: "(float32 \<times> float32) option"
  boundingBox :: Rect
  area :: float32
  ar :: float32
  type :: string

text \<open>\<^verbatim>\<open>{ (float)(moments.m10 / moments.m00), (float)(moments.m01 / moments.m00) }\<close>\<close>

definition centroid :: "Moments \<Rightarrow> (float32 \<times> float32) option" where
  "centroid mom =
     (if m00 mom = 0 then None
      else Some (f32 (f64 (m10 mom / m00 mom)), f32 (f64 (m01 mom / m00 mom))))"

text \<open>
  The loop of \<^verbatim>\<open>analyze_defects\<close> over the contours, \<open>defects\<close> being the vector that
  \<^verbatim>\<open>push_back\<close> extends.
\<close>

fun analyze_defects_loop :: "contour list \<Rightarrow> Defect list \<Rightarrow> Defect list" where
  "analyze_defects_loop [] defects = defects"
| "analyze_defects_loop (c # cs) defects =
     (let area = f32 (contourArea c)
      in if area < 2 then analyze_defects_loop cs defects
         else
           let bb = boundingRect c;
               mom = moments c;
               w = f32 (of_int (width bb));
               h = f32 (of_int (height bb));
               ar = f32 (w / max h 1);
               is_elongated = (ar > 5 / 2 \<or> ar \<le> f32 (7 / 10));
               is_large_enough = (area > 5);
               ty = (if is_elongated \<and> is_large_enough then ''scratch''
                     else if area > 150 then ''cluster''
                     else ''speck'')
           in analyze_defects_loop cs
                (defects @ [\<lparr>center = centroid mom, boundingBox = bb, area = area, ar = ar,
                             type = ty\<rparr>]))"

definition analyze_defects :: "('f, 'c) cv_lib \<Rightarrow> Mat \<Rightarrow> Defect list" where
  "analyze_defects cv defect_mask =
     (let contours = findContours cv defect_mask
      in analyze_defects_loop contours [])"

text \<open>
  \<^verbatim>\<open>analyzeDefects\<close> of the monolithic \<^verbatim>\<open>UI.h\<close>: its \<^verbatim>\<open>struct Defect\<close> has no
  \<^verbatim>\<open>ar\<close> member, and its scratch test reads \<^verbatim>\<open>ar < 0.40f\<close> and \<^verbatim>\<open>area > 20.0f\<close>.
\<close>

record Defect_UI =
  center_UI :: "(float32 \<times> float32) option"
  boundingBox_UI :: Rect
  area_UI :: float32
  type_UI :: string

fun analyzeDefects_loop :: "contour list \<Rightarrow> Defect_UI list \<Rightarrow> Defect_UI list" where
  "analyzeDefects_loop [] defects = defects"
| "analyzeDefects_loop (c # cs) defects =
     (let area = f32 (contourArea c)
      in if area < 2 then analyzeDefects_loop cs defects
         else
           let bb = boundingRect c;
               M = moments c;
               w = f32 (of_int (width bb));
               h = f32 (of_int (height bb));
               ar = f32 (w / max h 1);
               isElongated = (ar > 5 / 2 \<or> ar < f32 (2 / 5));
               isLargeEnough = (area > 20);
               ty = (if isElongated \<and> isLargeEnough then ''scratch''
                     else if area > 150 then ''cluster''
                     else ''speck'')
           in analyzeDefects_loop cs
                (defects @ [\<lparr>center_UI = centroid M, boundingBox_UI = bb, area_UI = area,
                             type_UI = ty\<rparr>]))"

definition analyzeDefects :: "('f, 'c) cv_lib \<Rightarrow> Mat \<Rightarrow> Defect_UI list" where
  "analyzeDefects cv defectMask =
     (let contours = findContours cv defectMask
      in analyzeDefects_loop contours [])"

subsection \<open>Images\<close>

text \<open>
  Pixel \<open>(y, x)\<close> of an image, and the image of given dimensions whose pixel \<open>(y, x)\<close> is
  \<open>f y x\<close>. An image is well formed when it holds \<open>rows * cols\<close> pixels.
\<close>

definition mat_at :: "Mat \<Rightarrow> nat \<Rightarrow> nat \<Rightarrow> u8" where
  "mat_at m y x = data m ! (y * cols m + x)"

definition mk_Mat :: "nat \<Rightarrow> nat \<Rightarrow> (nat \<Rightarrow> nat \<Rightarrow> u8) \<Rightarrow> Mat" where
  "mk_Mat r c f = \<lparr>rows = r, cols = c, data = map (\<lambda>i. f (i div c) (i mod c)) [0..<r * c]\<rparr>"

definition valid_Mat :: "Mat \<Rightarrow> bool" where
  "valid_Mat m \<longleftrightarrow> length (data m) = rows m * cols m"

text \<open>\<^verbatim>\<open>cv::Mat::zeros(size, CV_8U)\<close>\<close>

definition zeros :: "nat \<Rightarrow> nat \<Rightarrow> Mat" where
  "zeros r c = mk_Mat r c (\<lambda>y x. 0)"

text \<open>
  \<^verbatim>\<open>cv::threshold(src, dst, thresh, maxval, THRESH_BINARY)\<close>:
  \<^verbatim>\<open>dst(x,y) = src(x,y) > thresh ? maxval : 0\<close>.
\<close>

definition threshold_BINARY :: "Mat \<Rightarrow> int \<Rightarrow> u8 \<Rightarrow> Mat" where
  "threshold_BINARY src thresh maxval =
     mk_Mat (rows src) (cols src) (\<lambda>y x. if thresh < uint (mat_at src y x) then maxval else 0)"

text \<open>\<^verbatim>\<open>cv::countNonZero(m)\<close>\<close>

definition countNonZero :: "Mat \<Rightarrow> nat" where
  "countNonZero m = length (filter (\<lambda>p. p \<noteq> 0) (data m))"

text \<open>
  \<^verbatim>\<open>cv::bitwise_and(a, b, dst)\<close> on two arrays: the per-pixel conjunction of two images of
  the same size; operands of different sizes raise \<^verbatim>\<open>cv::Exception\<close> (the library's
  array-with-scalar form, for an operand of a single element, is not modelled).
\<close>

datatype cv_error = StsUnmatchedSizes

definition bitwise_and :: "Mat \<Rightarrow> Mat \<Rightarrow> cv_error + Mat" where
  "bitwise_and a b =
     (if rows a = rows b \<and> cols a = cols b
      then Inr (mk_Mat (rows a) (cols a) (\<lambda>y x. mat_at a y x AND mat_at b y x))
      else Inl StsUnmatchedSizes)"

subsection \<open>Morphology\<close>

text \<open>
  A structuring element is the list of the offsets \<open>(dy, dx)\<close>, from its anchor, of its
  nonzero entries. \<^verbatim>\<open>cv::erode\<close> takes the minimum and \<^verbatim>\<open>cv::dilate\<close> the maximum of the
  source over the element placed at the pixel; with the default border
  (\<^verbatim>\<open>morphologyDefaultBorderValue\<close>) positions outside the image do not take part.
\<close>

type_synonym kernel = "(int \<times> int) list"

definition neighbours :: "Mat \<Rightarrow> kernel \<Rightarrow> nat \<Rightarrow> nat \<Rightarrow> u8 list" where
  "neighbours src k y x =
     [mat_at src (nat (int y + dy)) (nat (int x + dx)).
        (dy, dx) \<leftarrow> k,
        0 \<le> int y + dy, int y + dy < int (rows src),
        0 \<le> int x + dx, int x + dx < int (cols src)]"

definition erode :: "Mat \<Rightarrow> kernel \<Rightarrow> Mat" where
  "erode src k = mk_Mat (rows src) (cols src) (\<lambda>y x. fold min (neighbours src k y x) 255)"

definition dilate :: "Mat \<Rightarrow> kernel \<Rightarrow> Mat" where
  "dilate src k = mk_Mat (rows src) (cols src) (\<lambda>y x. fold max (neighbours src k y x) 0)"

text \<open>\<^verbatim>\<open>cv::subtract\<close> on 8-bit images saturates at 0.\<close>

definition subtract :: "Mat \<Rightarrow> Mat \<Rightarrow> Mat" where
  "subtract a b =
     mk_Mat (rows a) (cols a)
       (\<lambda>y x. if mat_at b y x \<le> mat_at a y x then mat_at a y x - mat_at b y x else 0)"

text \<open>
  \<^verbatim>\<open>cv::morphologyEx\<close>: opening is \<^verbatim>\<open>dilate(erode(src))\<close>, closing is
  \<^verbatim>\<open>erode(dilate(src))\<close>, the top hat is \<^verbatim>\<open>src - open(src)\<close>.
\<close>

datatype MorphTypes = MORPH_OPEN | MORPH_CLOSE | MORPH_TOPHAT

fun morphologyEx :: "Mat \<Rightarrow> MorphTypes \<Rightarrow> kernel \<Rightarrow> Mat" where
  "morphologyEx src MORPH_OPEN k = dilate (erode src k) k"
| "morphologyEx src MORPH_CLOSE k = erode (dilate src k) k"
| "morphologyEx src MORPH_TOPHAT k = subtract src (dilate (erode src k) k)"

subsection \<open>Lens segmentation\<close>

text \<open>
  The loop of \<^verbatim>\<open>extract_lens_mask\<close> that finds the index of the largest contour; the list is
  \<^verbatim>\<open>contours[i], contours[i + 1], ...\<close>.
\<close>

fun largest_loop :: "contour list \<Rightarrow> int \<Rightarrow> int \<Rightarrow> double \<Rightarrow> int" where
  "largest_loop [] i largest max_area = largest"
| "largest_loop (c # cs) i largest max_area =
     (let a = contourArea c
      in if a > max_area then largest_loop cs (i + 1) i a
         else largest_loop cs (i + 1) largest max_area)"

definition extract_lens_mask :: "('f, 'c) cv_lib \<Rightarrow> Mat \<Rightarrow> Mat" where
  "extract_lens_mask cv gray =
     (let mask = threshold_BINARY gray 8 255;
          kernel = getStructuringElement cv 15 15;
          mask = morphologyEx mask MORPH_CLOSE kernel;
          mask = morphologyEx mask MORPH_OPEN kernel;
          contours = findContours cv mask;
          clean_mask = zeros (rows gray) (cols gray)
      in if contours \<noteq> []
         then let largest = largest_loop contours 0 0 0
              in drawContours_filled cv clean_mask contours largest 255
         else clean_mask)"

subsection \<open>Illumination correction\<close>

text \<open>
  \<^verbatim>\<open>blur_size\<close> is a 32-bit \<^verbatim>\<open>int\<close>; \<^verbatim>\<open>%\<close> truncates towards zero and \<^verbatim>\<open>++\<close> is
  the machine increment.
\<close>

definition correct_illumination :: "('f, 'c) cv_lib \<Rightarrow> Mat \<Rightarrow> Mat \<Rightarrow> 32 word \<Rightarrow> Mat" where
  "correct_illumination cv gray msk blur_size =
     (let blur_size = (if sint blur_size smod 2 = 0 then blur_size + 1 else blur_size);
          float_gray = convertTo_32F cv gray;
          background = GaussianBlur cv float_gray (blur_size, blur_size) 0;
          corrected = divide cv (add_scalar cv float_gray 1) (add_scalar cv background 1)
      in normalize_minmax cv corrected 0 255 msk)"

subsection \<open>Defect extraction\<close>

definition detect_defects :: "('f, 'c) cv_lib \<Rightarrow> Mat \<Rightarrow> Mat \<Rightarrow> int \<Rightarrow> cv_error + Mat" where
  "detect_defects cv corrected msk threshold =
     (let enhanced = clahe_apply cv 3 (8, 8) corrected;
          kernel = getStructuringElement cv 7 7;
          tophat = morphologyEx enhanced MORPH_TOPHAT kernel;
          defect_mask = threshold_BINARY tophat threshold 255;
          noise_kernel = getStructuringElement cv 3 3;
          defect_mask = morphologyEx defect_mask MORPH_OPEN noise_kernel
      in bitwise_and defect_mask msk)"

subsection \<open>Annotated display\<close>

text \<open>\<^verbatim>\<open>std::to_string\<close> of a non-negative number.\<close>

fun to_string :: "nat \<Rightarrow> string" where
  "to_string n =
     (if n < 10 then [char_of (48 + n)] else to_string (n div 10) @ [char_of (48 + n mod 10)])"

fun markers_loop :: "('f, 'c) cv_lib \<Rightarrow> Defect list \<Rightarrow> int \<Rightarrow> 'c \<Rightarrow> 'c" where
  "markers_loop cv [] i display = display"
| "markers_loop cv (d # ds) i display =
     (let color = (if type d = ''scratch'' then (0, 0, 255)
                   else if type d = ''cluster'' then (0, 165, 255)
                   else (255, 0, 255));
          radius = to_int (max 8 (f32 (of_int (to_int (sqrtf cv (area d)) + 4))));
          display = circle cv display (center d) radius color 2;
          display = putText cv display (to_string (nat (i + 1)))
                      (map_option (\<lambda>(cx, cy). (to_int cx + radius + 2, to_int cy + 4)) (center d))
                      (2 / 5) color 1
      in markers_loop cv ds (i + 1) display)"

definition build_annotated_display ::
    "('f, 'c) cv_lib \<Rightarrow> Mat \<Rightarrow> Mat \<Rightarrow> Defect list \<Rightarrow> bool \<Rightarrow> float32 \<Rightarrow> 'c" where
  "build_annotated_display cv corrected msk defects pass ratio =
     (let display = cvtColor_GRAY2BGR cv corrected;
          contours = findContours cv msk;
          display = drawContours cv display contours (- 1) (0, 255, 0) 3
      in markers_loop cv defects 0 display)"

subsection \<open>The verdict\<close>

text \<open>
  The pass/fail lines of \<^verbatim>\<open>btn_analyze_click\<close>:
  \<^verbatim>\<open>float lens_pixels = (float) cv::countNonZero (*stored_mask_);\<close>
  \<^verbatim>\<open>float defect_pixels = (float) cv::countNonZero (defect_mask);\<close>
  \<^verbatim>\<open>float ratio = defect_pixels / std::max<float> (lens_pixels, 1.0f);\<close>
  \<^verbatim>\<open>bool pass = (ratio < 0.000005f);\<close>
\<close>

definition defect_ratio :: "Mat \<Rightarrow> Mat \<Rightarrow> float32" where
  "defect_ratio stored_mask defect_mask =
     (let lens_pixels = f32 (of_nat (countNonZero stored_mask));
          defect_pixels = f32 (of_nat (countNonZero defect_mask))
      in f32 (defect_pixels / max lens_pixels 1))"

definition verdict_pass :: "float32 \<Rightarrow> bool" where
  "verdict_pass ratio \<longleftrightarrow> ratio < f32 (5 / 1000000)"

text \<open>
  What \<^verbatim>\<open>btn_analyze_click\<close> computes once an image is loaded: the corrected image, the
  defect list, the verdict and the display; an exception of \<^verbatim>\<open>detect_defects\<close> leaves the
  handler.
\<close>

record 'c Analysis =
  stored_corrected :: Mat
  stored_defects :: "Defect list"
  verdict_ratio :: float32
  verdict :: bool
  stored_display :: 'c

definition btn_analyze_click ::
    "('f, 'c) cv_lib \<Rightarrow> Mat \<Rightarrow> Mat \<Rightarrow> 32 word \<Rightarrow> int \<Rightarrow> cv_error + 'c Analysis" where
  "btn_analyze_click cv stored_gray stored_mask blur_size threshold =
     (let corrected = correct_illumination cv stored_gray stored_mask blur_size
      in case detect_defects cv corrected stored_mask threshold of
           Inl e \<Rightarrow> Inl e
         | Inr defect_mask \<Rightarrow>
             let defects = analyze_defects cv defect_mask;
                 ratio = defect_ratio stored_mask defect_mask;
                 pass = verdict_pass ratio
             in Inr \<lparr>stored_corrected = corrected, stored_defects = defects,
                     verdict_ratio = ratio, verdict = pass,
                     stored_display =
                       build_annotated_display cv corrected stored_mask defects pass ratio\<rparr>)"

subsection \<open>A sample library\<close>

text \<open>
  A small instance of the library interface, on which the pipeline can be evaluated:
  rectangular structuring elements, a contour finder that returns the corners of the bounding
  box of the foreground (no contour for an image without foreground), a fill of a contour's
  bounding box, and identities for the contrast, blur and arithmetic steps. It is far simpler
  than OpenCV; the theorems below hold for every instance of the interface.
\<close>

definition sample_getStructuringElement :: "nat \<Rightarrow> nat \<Rightarrow> (int \<times> int) list" where
  "sample_getStructuringElement w h =
     [(dy, dx). dy \<leftarrow> [- int (h div 2) .. int (h div 2)], dx \<leftarrow> [- int (w div 2) .. int (w div 2)]]"

definition sample_findContours :: "Mat \<Rightarrow> contour list" where
  "sample_findContours m =
     (let fg = [(int x, int y). y \<leftarrow> [0..<rows m], x \<leftarrow> [0..<cols m], mat_at m y x \<noteq> 0]
      in if fg = [] then []
         else let xmin = Min (set (map fst fg)); xmax = Max (set (map fst fg));
                  ymin = Min (set (map snd fg)); ymax = Max (set (map snd fg))
              in [[(xmin, ymin), (xmin, ymax), (xmax, ymax), (xmax, ymin)]])"

definition sample_drawContours_filled :: "Mat \<Rightarrow> contour list \<Rightarrow> int \<Rightarrow> u8 \<Rightarrow> Mat" where
  "sample_drawContours_filled img cs i v =
     (if 0 \<le> i \<and> nat i < length cs
      then let bb = boundingRect (cs ! nat i)
           in mk_Mat (rows img) (cols img)
                (\<lambda>y x. if rect_x bb \<le> int x \<and> int x < rect_x bb + width bb \<and>
                           rect_y bb \<le> int y \<and> int y < rect_y bb + height bb
                        then v else mat_at img y x)
      else img)"

definition sample_cv :: "(Mat, unit) cv_lib" where
  "sample_cv =
     \<lparr>getStructuringElement = sample_getStructuringElement,
      findContours = sample_findContours,
      drawContours_filled = sample_drawContours_filled,
      convertTo_32F = (\<lambda>m. m),
      GaussianBlur = (\<lambda>f ksize sigma. f),
      add_scalar = (\<lambda>f s. f),
      divide = (\<lambda>a b. a),
      normalize_minmax = (\<lambda>f a b m. mk_Mat (rows m) (cols m) (mat_at f)),
      clahe_apply = (\<lambda>clip grid m. m),
      cvtColor_GRAY2BGR = (\<lambda>m. ()),
      drawContours = (\<lambda>d cs i color thickness. ()),
      circle = (\<lambda>d c r color thickness. ()),
      putText = (\<lambda>d s org scale color thickness. ()),
      sqrtf = (\<lambda>x. x)\<rparr>"

text \<open>
  The sample library with a contour finder that reports a given list of contours, as for an
  image with several components.
\<close>

definition sample_cv_contours :: "contour list \<Rightarrow> (Mat, unit) cv_lib" where
  "sample_cv_contours cs = sample_cv\<lparr>findContours := (\<lambda>m. cs)\<rparr>"

section \<open>Properties\<close>

subsection \<open>Rounding\<close>


lemma round_half_even_of_int [simp]: "round_half_even (of_int n) = n"
  by (simp add: round_half_even_def)

lemma round_half_even_bounds: "\<lfloor>x\<rfloor> \<le> round_half_even x \<and> round_half_even x \<le> \<lfloor>x\<rfloor> + 1"
  by (simp add: round_half_even_def Let_def)

lemma round_half_even_mono: 
  assumes "x \<le> y" shows "round_half_even x \<le> round_half_even y"
proof (cases "\<lfloor>x\<rfloor> = \<lfloor>y\<rfloor>")
  case True
  with assms show ?thesis
    by (auto simp: round_half_even_def Let_def)
next
  case False
  with assms have "\<lfloor>x\<rfloor> + 1 \<le> \<lfloor>y\<rfloor>"
    using floor_mono [of x y] by linarith
  then show ?thesis
    using round_half_even_bounds [of x] round_half_even_bounds [of y] by linarith
qed

lemma ilog2_bounds:
  assumes "0 < x"
  shows "2 powi (ilog2 x) \<le> x" and "x < 2 powi (ilog2 x + 1)"
proof -
  obtain a b where q: "quotient_of x = (a, b)" by (cases "quotient_of x")
  have b: "0 < b" using q by (rule quotient_of_denom_pos)
  have x: "x = of_int a / of_int b" using q by (rule quotient_of_div)
  have a: "0 < a" using assms b x
    by (simp add: zero_less_divide_iff)
  define la lb where "la = bitlen a" and "lb = bitlen b"
  have la: "2 ^ nat (la - 1) \<le> a" "a < 2 ^ nat la" and lb: "2 ^ nat (lb - 1) \<le> b" "b < 2 ^ nat lb"
    using bitlen_bounds [OF a] bitlen_bounds [OF b] by (simp_all add: la_def lb_def)
  have la1: "1 \<le> la" and lb1: "1 \<le> lb"
    using a b by (simp_all add: la_def lb_def bitlen_alt_def)
  have pw: "(2::rat) powi k = of_int (2 ^ nat k)" if "0 \<le> k" for k
    using that by (simp add: power_int_def)
  have ra: "(2::rat) powi (la - 1) \<le> of_int a" "of_int a < (2::rat) powi la"
    and rb: "(2::rat) powi (lb - 1) \<le> of_int b" "of_int b < (2::rat) powi lb"
    using la lb la1 lb1 by (simp_all only: pw of_int_le_iff of_int_less_iff)
  have pos: "0 < (2::rat) powi k" for k by simp
  have up: "x < 2 powi (la - lb + 1)"
  proof -
    have "x < 2 powi la / 2 powi (lb - 1)"
      unfolding x using a ra(2) rb(1) pos [of "lb - 1"]
      by (intro frac_less) simp_all
    also have "\<dots> = 2 powi (la - lb + 1)"
      by (simp add: power_int_diff [symmetric] algebra_simps)
    finally show ?thesis .
  qed
  have lo: "2 powi (la - lb - 1) \<le> x"
  proof -
    have "2 powi (la - 1) / 2 powi lb \<le> x"
      unfolding x using a b ra(1) rb(2)
      by (intro frac_le) (simp_all add: less_imp_le)
    moreover have "(2::rat) powi (la - 1) / 2 powi lb = 2 powi (la - lb - 1)"
      by (simp add: power_int_diff [symmetric] algebra_simps)
    ultimately show ?thesis by simp
  qed
  have il: "ilog2 x = (if 2 powi (la - lb) \<le> x then la - lb else la - lb - 1)"
    by (simp add: ilog2_def q la_def lb_def)
  show "2 powi (ilog2 x) \<le> x"
    using lo by (simp add: il)
  show "x < 2 powi (ilog2 x + 1)"
    using up by (simp add: il not_le)
qed


lemma fl_exponent_ge: "emin \<le> fl_exponent emin x"
  by (simp add: fl_exponent_def)

lemma fl_exponent_upper: "\<bar>x\<bar> < 2 powi (fl_exponent emin x + 1)"
proof (cases "x = 0")
  case True
  then show ?thesis by simp
next
  case False
  then have "\<bar>x\<bar> < 2 powi (ilog2 \<bar>x\<bar> + 1)"
    by (intro ilog2_bounds) simp
  also have "\<dots> \<le> 2 powi (fl_exponent emin x + 1)"
    using False by (intro power_int_increasing) (simp_all add: fl_exponent_def)
  finally show ?thesis .
qed

lemma fl_exponent_lower:
  assumes "emin < fl_exponent emin x"
  shows "2 powi (fl_exponent emin x) \<le> \<bar>x\<bar>"
proof -
  from assms have nz: "x \<noteq> 0" and e: "fl_exponent emin x = ilog2 \<bar>x\<bar>"
    by (auto simp: fl_exponent_def split: if_splits)
  show ?thesis
    unfolding e using nz by (intro ilog2_bounds) simp
qed

lemma round_half_even_zero [simp]: "round_half_even 0 = 0"
  by (simp add: round_half_even_def)

lemma fl_round_zero [simp]: "fl_round p emin 0 = 0"
  by (simp add: fl_round_def)

lemma fl_round_nonneg: 
  assumes "0 \<le> x" shows "0 \<le> fl_round p emin x"
proof -
  define u :: rat where "u = 2 powi (fl_exponent emin x - int p + 1)"
  have u: "0 < u" by (simp add: u_def)
  have "round_half_even 0 \<le> round_half_even (x / u)"
    using assms u by (intro round_half_even_mono) simp
  then have "0 \<le> rat_of_int (round_half_even (x / u))"
    by simp
  then show ?thesis
    using u by (simp add: fl_round_def u_def [symmetric] Let_def)
qed

lemma fl_round_nonpos: 
  assumes "x \<le> 0" shows "fl_round p emin x \<le> 0"
proof -
  define u :: rat where "u = 2 powi (fl_exponent emin x - int p + 1)"
  have u: "0 < u" by (simp add: u_def)
  have "round_half_even (x / u) \<le> round_half_even 0"
    using assms u by (intro round_half_even_mono) (simp add: divide_le_0_iff)
  then have "rat_of_int (round_half_even (x / u)) \<le> 0"
    by simp
  then show ?thesis
    using u by (simp add: fl_round_def u_def [symmetric] Let_def mult_le_0_iff)
qed

lemma two_powi_nat: "(2::rat) powi (int n) = rat_of_int (2 ^ n)"
  by simp

lemma fl_round_le_pow:
  assumes "0 \<le> x"
  shows "fl_round p emin x \<le> 2 powi (fl_exponent emin x + 1)"
proof -
  define e where "e = fl_exponent emin x"
  define u :: rat where "u = 2 powi (e - int p + 1)"
  have u: "0 < u" by (simp add: u_def)
  have pu: "2 powi (int p) * u = 2 powi (e + 1)"
    using power_int_add [of "2::rat" "int p" "e - int p + 1"] by (simp add: u_def)
  have "x \<le> 2 powi (e + 1)"
    using fl_exponent_upper [of x emin] assms by (simp add: e_def)
  then have "x / u \<le> 2 powi (e + 1) / u"
    using u by (simp add: divide_right_mono)
  also have "2 powi (e + 1) / u = rat_of_int (2 ^ p)"
    using u by (simp add: pu [symmetric])
  finally have "round_half_even (x / u) \<le> round_half_even (rat_of_int (2 ^ p))"
    by (rule round_half_even_mono)
  then have "round_half_even (x / u) \<le> 2 ^ p"
    by (simp only: round_half_even_of_int)
  then have "rat_of_int (round_half_even (x / u)) \<le> rat_of_int (2 ^ p)"
    by (simp only: of_int_le_iff)
  then have "rat_of_int (round_half_even (x / u)) * u \<le> rat_of_int (2 ^ p) * u"
    using u by (intro mult_right_mono) simp_all
  also have "rat_of_int (2 ^ p) * u = 2 powi (e + 1)"
    using pu by simp
  finally show ?thesis
    unfolding fl_round_def Let_def e_def u_def .
qed

lemma fl_round_ge_pow:
  assumes "0 \<le> x" and "emin < fl_exponent emin x" and "1 \<le> p"
  shows "2 powi (fl_exponent emin x) \<le> fl_round p emin x"
proof -
  define e where "e = fl_exponent emin x"
  define u :: rat where "u = 2 powi (e - int p + 1)"
  have u: "0 < u" by (simp add: u_def)
  have pu: "2 powi (int (p - 1)) * u = 2 powi e"
    using power_int_add [of "2::rat" "int (p - 1)" "e - int p + 1"] assms(3)
    by (simp add: u_def of_nat_diff)
  have "2 powi e \<le> x"
    using fl_exponent_lower [OF assms(2)] assms(1) by (simp add: e_def)
  then have "2 powi e / u \<le> x / u"
    using u by (simp add: divide_right_mono)
  moreover have "2 powi e / u = rat_of_int (2 ^ (p - 1))"
    using u by (simp add: pu [symmetric])
  ultimately have "rat_of_int (2 ^ (p - 1)) \<le> x / u"
    by simp
  then have "round_half_even (rat_of_int (2 ^ (p - 1))) \<le> round_half_even (x / u)"
    by (rule round_half_even_mono)
  then have "2 ^ (p - 1) \<le> round_half_even (x / u)"
    by (simp only: round_half_even_of_int)
  then have "rat_of_int (2 ^ (p - 1)) \<le> rat_of_int (round_half_even (x / u))"
    by (simp only: of_int_le_iff)
  then have "rat_of_int (2 ^ (p - 1)) * u \<le> rat_of_int (round_half_even (x / u)) * u"
    using u by (intro mult_right_mono) simp_all
  moreover have "rat_of_int (2 ^ (p - 1)) * u = 2 powi e"
    using pu by simp
  ultimately have "2 powi e \<le> rat_of_int (round_half_even (x / u)) * u"
    by simp
  then show ?thesis
    unfolding fl_round_def Let_def e_def u_def .
qed

lemma fl_round_mono:
  assumes "0 \<le> x" and "x \<le> y" and "1 \<le> p"
  shows "fl_round p emin x \<le> fl_round p emin y"
proof -
  define ex ey where "ex = fl_exponent emin x" and "ey = fl_exponent emin y"
  have y: "0 \<le> y" using assms by simp
  consider "ex = ey" | "ex < ey" | "ey < ex" by linarith
  then show ?thesis
  proof cases
    case 1
    define u :: rat where "u = 2 powi (ex - int p + 1)"
    have u: "0 < u" by (simp add: u_def)
    have "round_half_even (x / u) \<le> round_half_even (y / u)"
      using assms(2) u by (intro round_half_even_mono) (simp add: divide_right_mono)
    then have "of_int (round_half_even (x / u)) * u \<le> of_int (round_half_even (y / u)) * u"
      using u by (simp add: mult_right_mono)
    then show ?thesis
      using 1 by (simp add: fl_round_def Let_def ex_def [symmetric] ey_def [symmetric] u_def)
  next
    case 2
    have "fl_round p emin x \<le> 2 powi (ex + 1)"
      using fl_round_le_pow [OF assms(1)] by (simp add: ex_def)
    also have "\<dots> \<le> 2 powi ey"
      using 2 by (intro power_int_increasing) simp_all
    also have "\<dots> \<le> fl_round p emin y"
      unfolding ey_def
      using 2 fl_exponent_ge [of emin x] by (intro fl_round_ge_pow y assms(3)) (simp add: ex_def ey_def)
    finally show ?thesis .
  next
    case 3
    have "y < 2 powi (ey + 1)"
      using fl_exponent_upper [of y emin] y by (simp add: ey_def)
    also have "\<dots> \<le> 2 powi ex"
      using 3 by (intro power_int_increasing) simp_all
    also have "\<dots> \<le> x"
      using fl_exponent_lower [of emin x] fl_exponent_ge [of emin y] 3 assms(1)
      by (simp add: ex_def ey_def)
    finally show ?thesis using assms(2) by simp
  qed
qed

lemma fl_round_of_int:
  assumes "\<bar>n\<bar> < 2 ^ p" and "emin < int p"
  shows "fl_round p emin (of_int n) = of_int n"
proof (cases "n = 0")
  case True
  then show ?thesis by simp
next
  case False
  define x :: rat where "x = of_int n"
  define e where "e = fl_exponent emin x"
  have nz: "x \<noteq> 0" using False by (simp add: x_def)
  have "2 powi (ilog2 \<bar>x\<bar>) \<le> \<bar>x\<bar>"
    using nz by (intro ilog2_bounds) simp
  also have "\<bar>x\<bar> < 2 powi (int p)"
    using assms(1) unfolding x_def two_powi_nat
    by (metis of_int_abs of_int_less_iff)
  finally have lt: "(2::rat) powi (ilog2 \<bar>x\<bar>) < 2 powi (int p)" .
  have "ilog2 \<bar>x\<bar> < int p"
  proof (rule ccontr)
    assume "\<not> ilog2 \<bar>x\<bar> < int p"
    then have "(2::rat) powi (int p) \<le> 2 powi (ilog2 \<bar>x\<bar>)"
      by (intro power_int_increasing) simp_all
    with lt show False by simp
  qed
  then have e: "e < int p"
    using assms(2) nz by (simp add: e_def fl_exponent_def)
  define k where "k = nat (int p - 1 - e)"
  have "e - int p + 1 = - int k"
    using e by (simp add: k_def)
  then have u: "2 powi (e - int p + 1) = 1 / rat_of_int (2 ^ k)"
    by (simp add: power_int_minus divide_inverse)
  have "x / (1 / rat_of_int (2 ^ k)) = rat_of_int (n * 2 ^ k)"
    by (simp add: x_def)
  then have "round_half_even (x / (1 / rat_of_int (2 ^ k))) = n * 2 ^ k"
    by (simp only: round_half_even_of_int)
  then have "fl_round p emin x = rat_of_int (n * 2 ^ k) * (1 / rat_of_int (2 ^ k))"
    unfolding fl_round_def Let_def e_def [symmetric] u by simp
  then show ?thesis
    by (simp add: x_def)
qed

lemma f32_numeral [simp]: "numeral k < (16777216::int) \<Longrightarrow> f32 (numeral k) = numeral k"
  using fl_round_of_int [of "numeral k" 24 "- 126"] by (simp add: f32_def)

lemma f32_zero [simp]: "f32 0 = 0"
  by (simp add: f32_def)

lemma f32_one [simp]: "f32 1 = 1"
  using fl_round_of_int [of 1 24 "- 126"] by (simp add: f32_def)

lemma f32_nonneg: "0 \<le> x \<Longrightarrow> 0 \<le> f32 x"
  by (simp add: f32_def fl_round_nonneg)

lemma f32_mono: "0 \<le> x \<Longrightarrow> x \<le> y \<Longrightarrow> f32 x \<le> f32 y"
  by (simp add: f32_def fl_round_mono)

text \<open>The program's constants and a few values, rounded.\<close>

lemma f32_half: "f32 (1 / 2) = 1 / 2"
  by code_simp

lemma f32_0_70: "f32 (7 / 10) = 11744051 / 16777216"
  by code_simp

lemma f32_0_40: "f32 (2 / 5) = 13421773 / 33554432"
  by code_simp

lemma f32_5e_6: "f32 (5 / 1000000) = 2748779 / 549755813888"
  by code_simp

lemma f32_3_2: "f32 (3 / 2) = 3 / 2"
  by code_simp

subsection \<open>The classifier\<close>


lemma analyze_defects_loop_append:
  "analyze_defects_loop cs defects = defects @ analyze_defects_loop cs []"
proof (induction cs arbitrary: defects)
  case Nil
  show ?case by simp
next
  case (Cons c cs)
  show ?case
    using Cons.IH [of "defects @ [x]" for x] Cons.IH [of "[x]" for x] Cons.IH [of defects]
    by (simp add: Let_def)
qed

lemma analyze_defects_loop_labels:
  "map (\<lambda>d. (area d, ar d, type d)) (analyze_defects_loop cs []) =
     map (\<lambda>c. let a = f32 (contourArea c); bb = boundingRect c;
                  r = f32 (f32 (of_int (width bb)) / max (f32 (of_int (height bb))) 1)
              in (a, r, if (r > 5 / 2 \<or> r \<le> f32 (7 / 10)) \<and> a > 5 then ''scratch''
                        else if a > 150 then ''cluster'' else ''speck''))
       (filter (\<lambda>c. 2 \<le> f32 (contourArea c)) cs)"
proof (induction cs)
  case Nil
  show ?case by simp
next
  case (Cons c cs)
  show ?case
    using Cons.IH analyze_defects_loop_append [of cs "[x]" for x]
    by (simp add: Let_def not_less)
qed

lemma analyze_defects_loop_types:
  "set (map type (analyze_defects_loop cs [])) \<subseteq> {''scratch'', ''cluster'', ''speck''}"
proof (induction cs)
  case Nil
  show ?case by simp
next
  case (Cons c cs)
  show ?case
    using Cons.IH analyze_defects_loop_append [of cs "[x]" for x]
    by (simp add: Let_def)
qed

text \<open>
  C1. Every contour that survives the area floor (its \<^verbatim>\<open>float\<close> area is not below
  \<open>2.0\<close>) yields exactly one record, in contour order, and the record's type is given by the
  ordered rule: \<open>scratch\<close> when the aspect ratio is above \<open>2.5\<close> or at most \<^verbatim>\<open>0.70f\<close> and
  the area is above \<open>5.0\<close>; otherwise \<open>cluster\<close> when the area is above \<open>150.0\<close>; otherwise
  \<open>speck\<close>. Every type is one of these three labels.
\<close>

theorem analyze_defects_rule:
  "map (\<lambda>d. (area d, ar d, type d)) (analyze_defects cv defect_mask) =
     map (\<lambda>c. let a = f32 (contourArea c); bb = boundingRect c;
                  r = f32 (f32 (of_int (width bb)) / max (f32 (of_int (height bb))) 1)
              in (a, r, if (r > 5 / 2 \<or> r \<le> f32 (7 / 10)) \<and> a > 5 then ''scratch''
                        else if a > 150 then ''cluster'' else ''speck''))
       (filter (\<lambda>c. 2 \<le> f32 (contourArea c)) (findContours cv defect_mask))
   \<and> set (map type (analyze_defects cv defect_mask)) \<subseteq> {''scratch'', ''cluster'', ''speck''}"
proof -
  have *: "analyze_defects cv defect_mask = analyze_defects_loop (findContours cv defect_mask) []"
    by (simp add: analyze_defects_def)
  show ?thesis
    unfolding * by (intro conjI analyze_defects_loop_labels analyze_defects_loop_types)
qed

subsection \<open>The two classifiers\<close>

text \<open>
  C2. The two classifiers are not extensionally equal. For the contour with corners
  \<open>(0, 0)\<close>, \<open>(0, 9)\<close>, \<open>(4, 9)\<close>, \<open>(4, 0)\<close>, of area 36, bounding box 5 by 10 and
  aspect ratio 0.5, \<^verbatim>\<open>analyzeDefects\<close> (elongated when the ratio is below \<^verbatim>\<open>0.40f\<close>, large
  when the area exceeds 20) says \<open>speck\<close> and \<^verbatim>\<open>analyze_defects\<close> (at most \<^verbatim>\<open>0.70f\<close>,
  above 5) says \<open>scratch\<close>. With the sample library, the 5 by 10 mask that is foreground
  everywhere has this contour, and the two functions disagree on it.
\<close>

theorem variants_disagree:
  "contourArea [(0, 0), (0, 9), (4, 9), (4, 0)] = 36 \<and>
   boundingRect [(0, 0), (0, 9), (4, 9), (4, 0)] = \<lparr>rect_x = 0, rect_y = 0, width = 5, height = 10\<rparr> \<and>
   map type_UI (analyzeDefects_loop [[(0, 0), (0, 9), (4, 9), (4, 0)]] []) = [''speck''] \<and>
   map type (analyze_defects_loop [[(0, 0), (0, 9), (4, 9), (4, 0)]] []) = [''scratch''] \<and>
   findContours sample_cv \<lparr>rows = 10, cols = 5, data = replicate 50 255\<rparr>
     = [[(0, 0), (0, 9), (4, 9), (4, 0)]] \<and>
   map type_UI (analyzeDefects sample_cv \<lparr>rows = 10, cols = 5, data = replicate 50 255\<rparr>)
     = [''speck''] \<and>
   map type (analyze_defects sample_cv \<lparr>rows = 10, cols = 5, data = replicate 50 255\<rparr>)
     = [''scratch'']"
proof -
  have a: "contourArea [(0, 0), (0, 9), (4, 9), (4, 0)] = 36"
    by (simp add: contourArea_def Point2f_def)
  have b: "boundingRect [(0, 0), (0, 9), (4, 9), (4, 0)] = \<lparr>rect_x = 0, rect_y = 0, width = 5, height = 10\<rparr>"
    by (simp add: boundingRect_def)
  have l1: "map type_UI (analyzeDefects_loop [[(0, 0), (0, 9), (4, 9), (4, 0)]] []) = [''speck'']"
    by (simp add: a b Let_def f32_half f32_0_70 f32_0_40)
  have l2: "map type (analyze_defects_loop [[(0, 0), (0, 9), (4, 9), (4, 0)]] []) = [''scratch'']"
    by (simp add: a b Let_def f32_half f32_0_70 f32_0_40)
  have fc: "findContours sample_cv \<lparr>rows = 10, cols = 5, data = replicate 50 255\<rparr>
     = [[(0, 0), (0, 9), (4, 9), (4, 0)]]"
    by code_simp
  show ?thesis
    unfolding analyzeDefects_def analyze_defects_def Let_def fc
    by (intro conjI) (rule a, rule b, rule l1, rule l2, rule refl, rule l1, rule l2)
qed


subsection \<open>The display\<close>

text \<open>
  C10. The annotated display does not depend on the \<^verbatim>\<open>pass\<close> and \<^verbatim>\<open>ratio\<close> arguments:
  two calls that differ only there return the same image.
\<close>

theorem build_annotated_display_ignores_verdict:
  "build_annotated_display cv corrected msk defects pass1 ratio1 =
   build_annotated_display cv corrected msk defects pass2 ratio2"
  by (simp add: build_annotated_display_def)


subsection \<open>Blur size\<close>

lemma smod_2_eq_0_iff: "(k::int) smod 2 = 0 \<longleftrightarrow> even k"
  by (auto simp: smod_int_alt_def sgn_if)

lemma even_sint_iff: "even (sint (b :: 32 word)) \<longleftrightarrow> even b"
  using bit_sint_iff [of b 0] by (simp add: bit_0)

text \<open>
  C8. For an even \<^verbatim>\<open>blur_size\<close> (any even 32-bit \<^verbatim>\<open>int\<close>), the illumination corrector
  returns the same image as for \<^verbatim>\<open>blur_size + 1\<close>, whatever the image, the mask and the
  library: the even value is incremented before it is used. In particular 100 and 101 agree.
\<close>

theorem correct_illumination_even_blur:
  "sint blur_size smod 2 = 0 \<Longrightarrow>
     correct_illumination cv gray msk blur_size = correct_illumination cv gray msk (blur_size + 1)"
  by (simp add: correct_illumination_def smod_2_eq_0_iff even_sint_iff)

theorem correct_illumination_even_blur_witness:
  "sint (100 :: 32 word) smod 2 = 0 \<and>
     correct_illumination sample_cv \<lparr>rows = 1, cols = 2, data = [7, 9]\<rparr>
       \<lparr>rows = 1, cols = 2, data = [255, 255]\<rparr> 100 =
     correct_illumination sample_cv \<lparr>rows = 1, cols = 2, data = [7, 9]\<rparr>
       \<lparr>rows = 1, cols = 2, data = [255, 255]\<rparr> 101"
  using correct_illumination_even_blur [of 100 sample_cv "\<lparr>rows = 1, cols = 2, data = [7, 9]\<rparr>"
      "\<lparr>rows = 1, cols = 2, data = [255, 255]\<rparr>"]
  by (simp add: smod_2_eq_0_iff)

subsection \<open>Images\<close>


lemma rows_mk_Mat [simp]: "rows (mk_Mat r c f) = r"
  and cols_mk_Mat [simp]: "cols (mk_Mat r c f) = c"
  and length_data_mk_Mat [simp]: "length (data (mk_Mat r c f)) = r * c"
  by (simp_all add: mk_Mat_def)

lemma valid_mk_Mat [simp]: "valid_Mat (mk_Mat r c f)"
  by (simp add: valid_Mat_def)

lemma index_in_range:
  assumes "y < r" and "x < c"
  shows "y * c + x < r * (c::nat)"
proof -
  have "y * c + x < y * c + c" using assms(2) by simp
  also have "\<dots> = Suc y * c" by simp
  also have "\<dots> \<le> r * c" using assms(1) by (intro mult_le_mono1) simp
  finally show ?thesis .
qed

lemma mat_at_mk_Mat [simp]:
  assumes "y < r" and "x < c"
  shows "mat_at (mk_Mat r c f) y x = f y x"
  using assms index_in_range [OF assms] by (simp add: mat_at_def mk_Mat_def)

lemma mk_Mat_cong:
  assumes "\<And>y x. y < r \<Longrightarrow> x < c \<Longrightarrow> f y x = g y x"
  shows "mk_Mat r c f = mk_Mat r c g"
proof -
  have "f (i div c) (i mod c) = g (i div c) (i mod c)" if "i < r * c" for i
  proof -
    from that have c: "0 < c" by (cases c) simp_all
    have "i div c < r"
      using that c by (simp add: less_mult_imp_div_less)
    moreover have "i mod c < c" using c by simp
    ultimately show ?thesis by (rule assms)
  qed
  then show ?thesis by (simp add: mk_Mat_def)
qed

lemma mk_Mat_self:
  assumes "valid_Mat m"
  shows "mk_Mat (rows m) (cols m) (mat_at m) = \<lparr>rows = rows m, cols = cols m, data = data m\<rparr>"
proof -
  have "map (\<lambda>i. data m ! (i div cols m * cols m + i mod cols m)) [0..<rows m * cols m] =
        map (\<lambda>i. data m ! i) [0..<length (data m)]"
    using assms by (simp add: valid_Mat_def)
  also have "\<dots> = data m" by (rule map_nth)
  finally show ?thesis by (simp add: mk_Mat_def mat_at_def)
qed

lemma length_filter_map_le:
  assumes "\<And>i. i \<in> set xs \<Longrightarrow> P (f i) \<Longrightarrow> Q (g i)"
  shows "length (filter P (map f xs)) \<le> length (filter Q (map g xs))"
  using assms by (induction xs) (auto simp: le_SucI)

lemma countNonZero_mk_Mat_le:
  assumes "\<And>y x. y < r \<Longrightarrow> x < c \<Longrightarrow> f y x \<noteq> 0 \<Longrightarrow> g y x \<noteq> 0"
  shows "countNonZero (mk_Mat r c f) \<le> countNonZero (mk_Mat r c g)"
proof -
  have "g (i div c) (i mod c) \<noteq> 0" if "i \<in> set [0..<r * c]" and "f (i div c) (i mod c) \<noteq> 0" for i
  proof -
    from that(1) have i: "i < r * c" by simp
    then have c: "0 < c" by (cases c) simp_all
    have "i div c < r"
      using i c by (simp add: less_mult_imp_div_less)
    moreover have "i mod c < c" using c by simp
    ultimately show ?thesis using that(2) by (rule assms)
  qed
  then have "length (filter (\<lambda>p. p \<noteq> 0) (map (\<lambda>i. f (i div c) (i mod c)) [0..<r * c]))
      \<le> length (filter (\<lambda>p. p \<noteq> 0) (map (\<lambda>i. g (i div c) (i mod c)) [0..<r * c]))"
    by (intro length_filter_map_le)
  then show ?thesis
    unfolding countNonZero_def mk_Mat_def by (simp only: Mat.simps)
qed

lemma countNonZero_data: "countNonZero \<lparr>rows = r, cols = c, data = d\<rparr> = length (filter (\<lambda>p. p \<noteq> 0) d)"
  by (simp add: countNonZero_def)

lemma countNonZero_subset_le:
  assumes "valid_Mat a" and "valid_Mat b" and "rows a = rows b" and "cols a = cols b"
    and "\<And>y x. y < rows a \<Longrightarrow> x < cols a \<Longrightarrow> mat_at a y x \<noteq> 0 \<Longrightarrow> mat_at b y x \<noteq> 0"
  shows "countNonZero a \<le> countNonZero b"
proof -
  have "countNonZero (mk_Mat (rows a) (cols a) (mat_at a)) \<le>
        countNonZero (mk_Mat (rows a) (cols a) (mat_at b))"
    using assms(5) by (rule countNonZero_mk_Mat_le)
  then show ?thesis
    using mk_Mat_self [OF assms(1)] mk_Mat_self [OF assms(2)] assms(3,4)
    by (simp add: countNonZero_def)
qed

lemma countNonZero_zeros [simp]: "countNonZero (zeros r c) = 0"
  by (simp add: countNonZero_def zeros_def mk_Mat_def filter_empty_conv)

subsection \<open>Morphology is monotone\<close>


lemma fold_rel:
  assumes "list_all2 R xs ys" and "R a b"
    and "\<And>x y a b. R x y \<Longrightarrow> R a b \<Longrightarrow> R (f x a) (f y b)"
  shows "R (fold f xs a) (fold f ys b)"
  using assms(1,2)
proof (induction xs ys arbitrary: a b rule: list_all2_induct)
  case Nil
  then show ?case by simp
next
  case (Cons x xs y ys)
  then show ?case by (simp add: assms(3))
qed

lemma neighbours_rel:
  assumes "rows A = rows B" and "cols A = cols B"
    and "\<And>y x. y < rows A \<Longrightarrow> x < cols A \<Longrightarrow> R (mat_at A y x) (mat_at B y x)"
  shows "list_all2 R (neighbours A k y x) (neighbours B k y x)"
proof (induction k)
  case Nil
  show ?case by (simp add: neighbours_def)
next
  case (Cons d k)
  obtain dy dx where d: "d = (dy, dx)" by (cases d)
  have step: "R (mat_at A (nat (int y + dy)) (nat (int x + dx)))
                (mat_at B (nat (int y + dy)) (nat (int x + dx)))"
    if "0 \<le> int y + dy" "int y + dy < int (rows A)" "0 \<le> int x + dx" "int x + dx < int (cols A)"
    using that by (intro assms(3)) simp_all
  show ?case
    using Cons.IH step assms(1,2)
    by (auto simp: neighbours_def d list_all2_appendI)
qed

lemma erode_rel:
  assumes "rows A = rows B" and "cols A = cols B"
    and "\<And>y x. y < rows A \<Longrightarrow> x < cols A \<Longrightarrow> R (mat_at A y x) (mat_at B y x)"
    and "R 255 255"
    and "\<And>x y a b. R x y \<Longrightarrow> R a b \<Longrightarrow> R (min x a) (min y b)"
    and "y < rows A" and "x < cols A"
  shows "R (mat_at (erode A k) y x) (mat_at (erode B k) y x)"
proof -
  have "R (fold min (neighbours A k y x) 255) (fold min (neighbours B k y x) 255)"
    using neighbours_rel [of A B R k y x, OF assms(1,2,3)] assms(4,5) by (rule fold_rel)
  then show ?thesis
    using assms(1,2,6,7) by (simp add: erode_def)
qed

lemma dilate_rel:
  assumes "rows A = rows B" and "cols A = cols B"
    and "\<And>y x. y < rows A \<Longrightarrow> x < cols A \<Longrightarrow> R (mat_at A y x) (mat_at B y x)"
    and "R 0 0"
    and "\<And>x y a b. R x y \<Longrightarrow> R a b \<Longrightarrow> R (max x a) (max y b)"
    and "y < rows A" and "x < cols A"
  shows "R (mat_at (dilate A k) y x) (mat_at (dilate B k) y x)"
proof -
  have "R (fold max (neighbours A k y x) 0) (fold max (neighbours B k y x) 0)"
    using neighbours_rel [of A B R k y x, OF assms(1,2,3)] assms(4,5) by (rule fold_rel)
  then show ?thesis
    using assms(1,2,6,7) by (simp add: dilate_def)
qed

lemma rows_erode [simp]: "rows (erode A k) = rows A" and cols_erode [simp]: "cols (erode A k) = cols A"
  and rows_dilate [simp]: "rows (dilate A k) = rows A" and cols_dilate [simp]: "cols (dilate A k) = cols A"
  and rows_threshold [simp]: "rows (threshold_BINARY A t v) = rows A"
  and cols_threshold [simp]: "cols (threshold_BINARY A t v) = cols A"
  and rows_subtract [simp]: "rows (subtract A B) = rows A"
  and cols_subtract [simp]: "cols (subtract A B) = cols A"
  by (simp_all add: erode_def dilate_def threshold_BINARY_def subtract_def)

lemma rows_morphologyEx [simp]: "rows (morphologyEx A m k) = rows A"
  and cols_morphologyEx [simp]: "cols (morphologyEx A m k) = cols A"
  by (cases m; simp)+

lemma u8_le_255: "(a :: u8) \<le> 255"
proof -
  have "(255 :: u8) = - 1" by simp
  then show ?thesis by (simp only: word_n1_ge)
qed

lemma fg_rel_min:
  fixes x y a b :: u8
  assumes "x = 0 \<or> x = 255 \<and> y = 255" and "a = 0 \<or> a = 255 \<and> b = 255"
  shows "min x a = 0 \<or> min x a = 255 \<and> min y b = 255"
  using assms by (auto simp: min_def)

lemma fg_rel_max:
  fixes x y a b :: u8
  assumes "x = 0 \<or> x = 255 \<and> y = 255" and "a = 0 \<or> a = 255 \<and> b = 255"
  shows "max x a = 0 \<or> max x a = 255 \<and> max y b = 255"
  using assms u8_le_255 [of y] u8_le_255 [of b] by (auto simp: max_def)

lemma open_rel:
  assumes "rows A = rows B" and "cols A = cols B"
    and "\<And>y x. y < rows A \<Longrightarrow> x < cols A \<Longrightarrow>
           mat_at A y x = 0 \<or> mat_at A y x = 255 \<and> mat_at B y x = 255"
    and "y < rows A" and "x < cols A"
  shows "mat_at (morphologyEx A MORPH_OPEN k) y x = 0 \<or>
         mat_at (morphologyEx A MORPH_OPEN k) y x = 255 \<and> mat_at (morphologyEx B MORPH_OPEN k) y x = 255"
proof -
  let ?R = "\<lambda>a b :: u8. a = 0 \<or> a = 255 \<and> b = 255"
  have e: "?R (mat_at (erode A k) y x) (mat_at (erode B k) y x)" if "y < rows A" "x < cols A" for y x
    by (rule erode_rel [where R = ?R]) (use assms(1,2,3) that in \<open>simp_all add: fg_rel_min\<close>)
  have "?R (mat_at (dilate (erode A k) k) y x) (mat_at (dilate (erode B k) k) y x)"
    by (rule dilate_rel [where R = ?R]) (use assms(1,2,4,5) e in \<open>simp_all add: fg_rel_max\<close>)
  then show ?thesis by simp
qed


subsection \<open>Defect extraction\<close>


lemma and_not_self_word: "(a AND b) AND NOT b = (0 :: u8)"
  by (simp add: and.assoc)

lemma bitwise_and_Inr:
  assumes "bitwise_and a b = Inr c"
  shows "rows a = rows b" and "cols a = cols b"
    and "c = mk_Mat (rows b) (cols b) (\<lambda>y x. mat_at a y x AND mat_at b y x)"
  using assms by (auto simp: bitwise_and_def split: if_splits)

text \<open>
  C3. Whenever the defect extractor returns a candidate mask, the candidate has the
  dimensions of the lens mask and, at every pixel, \<open>candidate AND NOT mask\<close> is zero: a
  foreground pixel of the candidate is a foreground pixel of the mask. The last step of
  \<^verbatim>\<open>detect_defects\<close> intersects with the mask.
\<close>

theorem detect_defects_within_mask:
  assumes "detect_defects cv corrected msk threshold = Inr candidate"
  shows "rows candidate = rows msk \<and> cols candidate = cols msk \<and>
         (\<forall>y < rows msk. \<forall>x < cols msk.
            mat_at candidate y x AND NOT (mat_at msk y x) = 0 \<and>
            (mat_at candidate y x \<noteq> 0 \<longrightarrow> mat_at msk y x \<noteq> 0))"
proof -
  obtain a where "bitwise_and a msk = Inr candidate"
    using assms by (simp add: detect_defects_def Let_def)
  then have c: "candidate = mk_Mat (rows msk) (cols msk) (\<lambda>y x. mat_at a y x AND mat_at msk y x)"
    by (rule bitwise_and_Inr)
  have "mat_at candidate y x AND NOT (mat_at msk y x) = 0 \<and>
        (mat_at candidate y x \<noteq> 0 \<longrightarrow> mat_at msk y x \<noteq> 0)"
    if "y < rows msk" and "x < cols msk" for y x
    using that by (auto simp: c and_not_self_word)
  then show ?thesis by (simp add: c)
qed

theorem detect_defects_within_mask_witness:
  "detect_defects sample_cv \<lparr>rows = 1, cols = 9, data = [0, 0, 0, 200, 200, 200, 0, 0, 0]\<rparr>
     \<lparr>rows = 1, cols = 9, data = [255, 255, 255, 255, 255, 0, 0, 0, 0]\<rparr> 10
     = Inr \<lparr>rows = 1, cols = 9, data = [0, 0, 0, 255, 255, 0, 0, 0, 0]\<rparr> \<and>
   mat_at \<lparr>rows = 1, cols = 9, data = [0, 0, 0, 255, 255, 0, 0, 0, 0]\<rparr> 0 3 = 255 \<and>
   mat_at \<lparr>rows = 1, cols = 9, data = [0, 0, 0, 255, 255, 0, 0, 0, 0]\<rparr> 0 3
     AND NOT (mat_at \<lparr>rows = 1, cols = 9, data = [255, 255, 255, 255, 255, 0, 0, 0, 0]\<rparr> 0 3) = 0 \<and>
   mat_at \<lparr>rows = 1, cols = 9, data = [255, 255, 255, 255, 255, 0, 0, 0, 0]\<rparr> 0 3 \<noteq> 0"
proof -
  have e: "detect_defects sample_cv \<lparr>rows = 1, cols = 9, data = [0, 0, 0, 200, 200, 200, 0, 0, 0]\<rparr>
     \<lparr>rows = 1, cols = 9, data = [255, 255, 255, 255, 255, 0, 0, 0, 0]\<rparr> 10
     = Inr \<lparr>rows = 1, cols = 9, data = [0, 0, 0, 255, 255, 0, 0, 0, 0]\<rparr>"
    by code_simp
  have r: "0 < rows \<lparr>rows = 1, cols = 9, data = [255, 255, 255, 255, 255, 0, 0, 0, 0 :: u8]\<rparr>"
    "3 < cols \<lparr>rows = 1, cols = 9, data = [255, 255, 255, 255, 255, 0, 0, 0, 0 :: u8]\<rparr>"
    by simp_all
  have v: "mat_at \<lparr>rows = 1, cols = 9, data = [0, 0, 0, 255, 255, 0, 0, 0, 0]\<rparr> 0 3 = 255"
    by (simp add: mat_at_def)
  note t = detect_defects_within_mask [OF e, THEN conjunct2, THEN conjunct2, rule_format, OF r]
  have nz: "mat_at \<lparr>rows = 1, cols = 9, data = [0, 0, 0, 255, 255, 0, 0, 0, 0]\<rparr> 0 3 \<noteq> 0"
    using v by simp
  show ?thesis
    by (intro conjI) (rule e, rule v, rule t [THEN conjunct1], rule t [THEN conjunct2, THEN mp, OF nz])
qed

lemma threshold_rel:
  assumes "t1 \<le> t2" and "y < rows T" and "x < cols T"
  shows "mat_at (threshold_BINARY T t2 255) y x = 0 \<or>
         mat_at (threshold_BINARY T t2 255) y x = 255 \<and> mat_at (threshold_BINARY T t1 255) y x = 255"
  using assms by (simp add: threshold_BINARY_def)

text \<open>
  C5. For thresholds \<open>t1 \<le> t2\<close> the defect extractor either returns a mask for both, and
  the foreground count at \<open>t2\<close> is at most the count at \<open>t1\<close>, or raises the same
  exception for both. The image, the mask and the library are arbitrary.
\<close>

theorem detect_defects_threshold_monotone:
  assumes "t1 \<le> t2"
  shows "(\<exists>m1 m2. detect_defects cv corrected msk t1 = Inr m1 \<and>
                 detect_defects cv corrected msk t2 = Inr m2 \<and>
                 countNonZero m2 \<le> countNonZero m1) \<or>
         (\<exists>e. detect_defects cv corrected msk t1 = Inl e \<and>
              detect_defects cv corrected msk t2 = Inl e)"
proof -
  define tophat where
    "tophat = morphologyEx (clahe_apply cv 3 (8, 8) corrected) MORPH_TOPHAT (getStructuringElement cv 7 7)"
  define opened where
    "opened t = morphologyEx (threshold_BINARY tophat t 255) MORPH_OPEN (getStructuringElement cv 3 3)"
    for t
  have dd: "detect_defects cv corrected msk t = bitwise_and (opened t) msk" for t
    by (simp add: detect_defects_def Let_def opened_def tophat_def)
  have dims: "rows (opened t) = rows tophat" "cols (opened t) = cols tophat" for t
    by (simp_all add: opened_def)
  have rel: "mat_at (opened t2) y x = 0 \<or>
             mat_at (opened t2) y x = 255 \<and> mat_at (opened t1) y x = 255"
    if "y < rows tophat" and "x < cols tophat" for y x
    unfolding opened_def
    by (rule open_rel) (use that assms in \<open>simp_all add: threshold_rel\<close>)
  show ?thesis
  proof (cases "rows tophat = rows msk \<and> cols tophat = cols msk")
    case True
    have "countNonZero (mk_Mat (rows tophat) (cols tophat) (\<lambda>y x. mat_at (opened t2) y x AND mat_at msk y x))
        \<le> countNonZero (mk_Mat (rows tophat) (cols tophat) (\<lambda>y x. mat_at (opened t1) y x AND mat_at msk y x))"
    proof (rule countNonZero_mk_Mat_le)
      fix y x
      assume "y < rows tophat" and "x < cols tophat"
        and "mat_at (opened t2) y x AND mat_at msk y x \<noteq> 0"
      then show "mat_at (opened t1) y x AND mat_at msk y x \<noteq> 0"
        using rel [of y x] by auto
    qed
    then show ?thesis
      using True by (simp add: dd bitwise_and_def dims)
  next
    case False
    then show ?thesis
      by (auto simp: dd bitwise_and_def dims)
  qed
qed

theorem detect_defects_threshold_monotone_witness:
  "(10 :: int) \<le> 250 \<and>
   detect_defects sample_cv \<lparr>rows = 1, cols = 9, data = [0, 0, 0, 200, 200, 200, 0, 0, 0]\<rparr>
     \<lparr>rows = 1, cols = 9, data = [255, 255, 255, 255, 255, 0, 0, 0, 0]\<rparr> 10
     = Inr \<lparr>rows = 1, cols = 9, data = [0, 0, 0, 255, 255, 0, 0, 0, 0]\<rparr> \<and>
   detect_defects sample_cv \<lparr>rows = 1, cols = 9, data = [0, 0, 0, 200, 200, 200, 0, 0, 0]\<rparr>
     \<lparr>rows = 1, cols = 9, data = [255, 255, 255, 255, 255, 0, 0, 0, 0]\<rparr> 250
     = Inr \<lparr>rows = 1, cols = 9, data = [0, 0, 0, 0, 0, 0, 0, 0, 0]\<rparr> \<and>
   countNonZero \<lparr>rows = 1, cols = 9, data = [0, 0, 0, 0, 0, 0, 0, 0, 0]\<rparr>
     \<le> countNonZero \<lparr>rows = 1, cols = 9, data = [0, 0, 0, 255, 255, 0, 0, 0, 0]\<rparr>"
proof -
  have e1: "detect_defects sample_cv \<lparr>rows = 1, cols = 9, data = [0, 0, 0, 200, 200, 200, 0, 0, 0]\<rparr>
     \<lparr>rows = 1, cols = 9, data = [255, 255, 255, 255, 255, 0, 0, 0, 0]\<rparr> 10
     = Inr \<lparr>rows = 1, cols = 9, data = [0, 0, 0, 255, 255, 0, 0, 0, 0]\<rparr>"
    by code_simp
  have e2: "detect_defects sample_cv \<lparr>rows = 1, cols = 9, data = [0, 0, 0, 200, 200, 200, 0, 0, 0]\<rparr>
     \<lparr>rows = 1, cols = 9, data = [255, 255, 255, 255, 255, 0, 0, 0, 0]\<rparr> 250
     = Inr \<lparr>rows = 1, cols = 9, data = [0, 0, 0, 0, 0, 0, 0, 0, 0]\<rparr>"
    by code_simp
  have le: "(10 :: int) \<le> 250" by simp
  have c: "countNonZero \<lparr>rows = 1, cols = 9, data = [0, 0, 0, 0, 0, 0, 0, 0, 0]\<rparr>
     \<le> countNonZero \<lparr>rows = 1, cols = 9, data = [0, 0, 0, 255, 255, 0, 0, 0, 0]\<rparr>"
    using detect_defects_threshold_monotone [OF le, of sample_cv
      "\<lparr>rows = 1, cols = 9, data = [0, 0, 0, 200, 200, 200, 0, 0, 0]\<rparr>"
      "\<lparr>rows = 1, cols = 9, data = [255, 255, 255, 255, 255, 0, 0, 0, 0]\<rparr>"]
    unfolding e1 e2 by (elim disjE exE conjE) simp_all
  show ?thesis
    by (intro conjI) (rule le, rule e1, rule e2, rule c)
qed

subsection \<open>The verdict\<close>


lemma defect_ratio_nonneg: "0 \<le> defect_ratio stored_mask defect_mask"
proof -
  have "0 \<le> f32 (of_nat (countNonZero defect_mask))"
    and "0 \<le> f32 (of_nat (countNonZero stored_mask))"
    by (simp_all add: f32_nonneg)
  then show ?thesis
    unfolding defect_ratio_def Let_def by (intro f32_nonneg divide_nonneg_nonneg) simp_all
qed

lemma defect_ratio_empty:
  "countNonZero defect_mask = 0 \<Longrightarrow> defect_ratio stored_mask defect_mask = 0"
  by (simp add: defect_ratio_def)

lemma defect_ratio_le_1:
  assumes "countNonZero defect_mask \<le> countNonZero stored_mask"
  shows "defect_ratio stored_mask defect_mask \<le> 1"
proof -
  define d l :: rat where "d = f32 (of_nat (countNonZero defect_mask))"
    and "l = f32 (of_nat (countNonZero stored_mask))"
  have d0: "0 \<le> d" by (simp add: d_def f32_nonneg)
  have "d \<le> l" unfolding d_def l_def using assms by (intro f32_mono) simp_all
  then have "d \<le> max l 1" by simp
  moreover have "0 < max l 1" by (simp add: less_max_iff_disj)
  ultimately have "d / max l 1 \<le> 1" by (simp add: divide_le_eq_1)
  moreover have "0 \<le> d / max l 1" using d0 by (intro divide_nonneg_nonneg) simp_all
  ultimately have "f32 (d / max l 1) \<le> f32 1" by (intro f32_mono)
  then show ?thesis
    by (simp add: defect_ratio_def Let_def d_def l_def)
qed

text \<open>
  C4. For every pair of masks the defect-area ratio (the \<^verbatim>\<open>float\<close> quotient of the
  candidate's foreground count by the larger of the lens count and 1) is at least 0, is 0 when
  the candidate mask has no foreground, and the verdict is pass exactly when the ratio is
  below \<^verbatim>\<open>0.000005f\<close>. When the candidate mask is a subset of the lens mask (well-formed
  images of the same dimensions), the ratio is at most 1.
\<close>

theorem defect_ratio_bounds:
  "0 \<le> defect_ratio stored_mask defect_mask \<and>
   (countNonZero defect_mask = 0 \<longrightarrow> defect_ratio stored_mask defect_mask = 0) \<and>
   (verdict_pass (defect_ratio stored_mask defect_mask)
      \<longleftrightarrow> defect_ratio stored_mask defect_mask < f32 (5 / 1000000)) \<and>
   (valid_Mat stored_mask \<and> valid_Mat defect_mask \<and>
    rows defect_mask = rows stored_mask \<and> cols defect_mask = cols stored_mask \<and>
    (\<forall>y < rows defect_mask. \<forall>x < cols defect_mask.
       mat_at defect_mask y x \<noteq> 0 \<longrightarrow> mat_at stored_mask y x \<noteq> 0)
    \<longrightarrow> defect_ratio stored_mask defect_mask \<le> 1)"
proof (intro conjI impI)
  show "0 \<le> defect_ratio stored_mask defect_mask"
    by (rule defect_ratio_nonneg)
  show "defect_ratio stored_mask defect_mask = 0" if "countNonZero defect_mask = 0"
    using that by (rule defect_ratio_empty)
  show "verdict_pass (defect_ratio stored_mask defect_mask)
      \<longleftrightarrow> defect_ratio stored_mask defect_mask < f32 (5 / 1000000)"
    by (simp add: verdict_pass_def)
  show "defect_ratio stored_mask defect_mask \<le> 1"
    if "valid_Mat stored_mask \<and> valid_Mat defect_mask \<and>
      rows defect_mask = rows stored_mask \<and> cols defect_mask = cols stored_mask \<and>
      (\<forall>y < rows defect_mask. \<forall>x < cols defect_mask.
         mat_at defect_mask y x \<noteq> 0 \<longrightarrow> mat_at stored_mask y x \<noteq> 0)"
  proof -
    have "countNonZero defect_mask \<le> countNonZero stored_mask"
      using that by (intro countNonZero_subset_le) simp_all
    then show ?thesis by (rule defect_ratio_le_1)
  qed
qed


theorem defect_ratio_bounds_witness:
  "valid_Mat \<lparr>rows = 1, cols = 4, data = [255, 255, 255, 0]\<rparr> \<and>
   valid_Mat \<lparr>rows = 1, cols = 4, data = [0, 255, 0, 0]\<rparr> \<and>
   defect_ratio \<lparr>rows = 1, cols = 4, data = [255, 255, 255, 0]\<rparr>
     \<lparr>rows = 1, cols = 4, data = [0, 255, 0, 0]\<rparr> = 11184811 / 33554432 \<and>
   0 \<le> defect_ratio \<lparr>rows = 1, cols = 4, data = [255, 255, 255, 0]\<rparr>
     \<lparr>rows = 1, cols = 4, data = [0, 255, 0, 0]\<rparr> \<and>
   defect_ratio \<lparr>rows = 1, cols = 4, data = [255, 255, 255, 0]\<rparr>
     \<lparr>rows = 1, cols = 4, data = [0, 255, 0, 0]\<rparr> \<le> 1 \<and>
   \<not> verdict_pass (defect_ratio \<lparr>rows = 1, cols = 4, data = [255, 255, 255, 0]\<rparr>
     \<lparr>rows = 1, cols = 4, data = [0, 255, 0, 0]\<rparr>) \<and>
   countNonZero \<lparr>rows = 1, cols = 4, data = [0, 0, 0, 0]\<rparr> = 0 \<and>
   defect_ratio \<lparr>rows = 1, cols = 4, data = [255, 255, 255, 0]\<rparr>
     \<lparr>rows = 1, cols = 4, data = [0, 0, 0, 0]\<rparr> = 0 \<and>
   verdict_pass (defect_ratio \<lparr>rows = 1, cols = 4, data = [255, 255, 255, 0]\<rparr>
     \<lparr>rows = 1, cols = 4, data = [0, 0, 0, 0]\<rparr>)"
proof -
  let ?M = "\<lparr>rows = 1, cols = 4, data = [255, 255, 255, 0 :: u8]\<rparr>"
  let ?D = "\<lparr>rows = 1, cols = 4, data = [0, 255, 0, 0 :: u8]\<rparr>"
  let ?Z = "\<lparr>rows = 1, cols = 4, data = [0, 0, 0, 0 :: u8]\<rparr>"
  have third: "f32 (1 / 3) = 11184811 / 33554432"
    by code_simp
  have r: "defect_ratio ?M ?D = 11184811 / 33554432"
    by (simp add: defect_ratio_def countNonZero_def third)
  have vM: "valid_Mat ?M" and vD: "valid_Mat ?D"
    by (simp_all add: valid_Mat_def)
  have sub: "valid_Mat ?M \<and> valid_Mat ?D \<and> rows ?D = rows ?M \<and> cols ?D = cols ?M \<and>
     (\<forall>y < rows ?D. \<forall>x < cols ?D. mat_at ?D y x \<noteq> 0 \<longrightarrow> mat_at ?M y x \<noteq> 0)"
    by (simp add: valid_Mat_def mat_at_def eval_nat_numeral All_less_Suc)
  have z: "countNonZero ?Z = 0"
    by (simp add: countNonZero_def)
  note b = defect_ratio_bounds [of ?M ?D]
  note bz = defect_ratio_bounds [of ?M ?Z]
  have le1: "defect_ratio ?M ?D \<le> 1"
    by (rule b [THEN conjunct2, THEN conjunct2, THEN conjunct2, THEN mp, OF sub])
  have ge0: "0 \<le> defect_ratio ?M ?D"
    by (rule b [THEN conjunct1])
  have rz: "defect_ratio ?M ?Z = 0"
    by (rule bz [THEN conjunct2, THEN conjunct1, THEN mp, OF z])
  have np: "\<not> verdict_pass (defect_ratio ?M ?D)"
    using b [THEN conjunct2, THEN conjunct2, THEN conjunct1] f32_5e_6 r by simp
  have p: "verdict_pass (defect_ratio ?M ?Z)"
    using bz [THEN conjunct2, THEN conjunct2, THEN conjunct1] f32_5e_6 rz by simp
  show ?thesis
    by (intro conjI) (rule vM, rule vD, rule r, rule ge0, rule le1, rule np, rule z, rule rz, rule p)
qed

subsection \<open>Lens segmentation\<close>


lemma contourArea_nonneg: "0 \<le> contourArea c"
  by (simp add: contourArea_def)

lemma largest_loop_inv:
  assumes "pre = [] \<longrightarrow> largest = 0 \<and> max_area = 0"
    and "pre \<noteq> [] \<longrightarrow> 0 \<le> largest \<and> nat largest < length pre \<and>
           contourArea (pre ! nat largest) = max_area \<and>
           (\<forall>k < length pre. contourArea (pre ! k) \<le> max_area) \<and>
           (\<forall>k < nat largest. contourArea (pre ! k) < max_area)"
    and "i = int (length pre)"
    and "pre @ cs \<noteq> []"
  shows "0 \<le> largest_loop cs i largest max_area \<and>
         nat (largest_loop cs i largest max_area) < length (pre @ cs) \<and>
         (\<forall>k < length (pre @ cs).
            contourArea ((pre @ cs) ! k) \<le> contourArea ((pre @ cs) ! nat (largest_loop cs i largest max_area))) \<and>
         (\<forall>k < nat (largest_loop cs i largest max_area).
            contourArea ((pre @ cs) ! k) < contourArea ((pre @ cs) ! nat (largest_loop cs i largest max_area)))"
  using assms
proof (induction cs arbitrary: pre i largest max_area)
  case Nil
  then show ?case by auto
next
  case (Cons c cs)
  define a where "a = contourArea c"
  have a0: "0 \<le> a" by (simp add: a_def contourArea_nonneg)
  have app: "pre @ c # cs = (pre @ [c]) @ cs" by simp
  have len: "i + 1 = int (length (pre @ [c]))" using Cons.prems(3) by simp
  show ?case
  proof (cases "a > max_area")
    case True
    have inv: "pre @ [c] \<noteq> [] \<longrightarrow> 0 \<le> i \<and> nat i < length (pre @ [c]) \<and>
           contourArea ((pre @ [c]) ! nat i) = a \<and>
           (\<forall>k < length (pre @ [c]). contourArea ((pre @ [c]) ! k) \<le> a) \<and>
           (\<forall>k < nat i. contourArea ((pre @ [c]) ! k) < a)"
      using Cons.prems(1,2,3) True
      by (cases "pre = []") (auto simp: nth_append a_def less_Suc_eq)
    have "largest_loop (c # cs) i largest max_area = largest_loop cs (i + 1) i a"
      using True by (simp add: a_def)
    then show ?thesis
      unfolding app using Cons.IH [of "pre @ [c]" i a "i + 1", OF _ inv len] by simp
  next
    case False
    have inv: "pre @ [c] \<noteq> [] \<longrightarrow> 0 \<le> largest \<and> nat largest < length (pre @ [c]) \<and>
           contourArea ((pre @ [c]) ! nat largest) = max_area \<and>
           (\<forall>k < length (pre @ [c]). contourArea ((pre @ [c]) ! k) \<le> max_area) \<and>
           (\<forall>k < nat largest. contourArea ((pre @ [c]) ! k) < max_area)"
      using Cons.prems(1,2,3) False a0
      by (cases "pre = []") (auto simp: nth_append a_def less_Suc_eq)
    have "largest_loop (c # cs) i largest max_area = largest_loop cs (i + 1) largest max_area"
      using False by (simp add: a_def)
    then show ?thesis
      unfolding app using Cons.IH [of "pre @ [c]" largest max_area "i + 1", OF _ inv len] by simp
  qed
qed

lemma largest_loop_correct:
  assumes "cs \<noteq> []"
  shows "0 \<le> largest_loop cs 0 0 0 \<and> nat (largest_loop cs 0 0 0) < length cs \<and>
         contourArea (cs ! nat (largest_loop cs 0 0 0)) = Max (set (map contourArea cs)) \<and>
         (\<forall>k < nat (largest_loop cs 0 0 0).
            contourArea (cs ! k) < contourArea (cs ! nat (largest_loop cs 0 0 0)))"
proof -
  define j where "j = nat (largest_loop cs 0 0 0)"
  have inv: "0 \<le> largest_loop cs 0 0 0 \<and> j < length cs \<and>
      (\<forall>k < length cs. contourArea (cs ! k) \<le> contourArea (cs ! j)) \<and>
      (\<forall>k < j. contourArea (cs ! k) < contourArea (cs ! j))"
    using largest_loop_inv [of "[]" 0 0 0 cs] assms by (simp add: j_def)
  have "Max (set (map contourArea cs)) = contourArea (cs ! j)"
  proof (rule Max_eqI)
    show "finite (set (map contourArea cs))" by simp
    show "y \<le> contourArea (cs ! j)" if "y \<in> set (map contourArea cs)" for y
      using that inv by (auto simp: in_set_conv_nth)
    show "contourArea (cs ! j) \<in> set (map contourArea cs)"
      using inv by simp
  qed
  then show ?thesis using inv by (simp add: j_def)
qed

text \<open>
  C9. When the cleaned mask has at least one contour, the lens segmenter draws, filled, into
  an all-zero image of the source's dimensions, exactly one contour: one of maximum area, and
  the first such in the order of \<^verbatim>\<open>findContours\<close> (every earlier contour has a strictly
  smaller area; when all areas are zero this is the first contour).
\<close>

theorem extract_lens_mask_largest:
  fixes cv :: "('f, 'c) cv_lib" and gray :: Mat
  defines "elem \<equiv> getStructuringElement cv 15 15"
  defines "contours \<equiv> findContours cv
     (morphologyEx (morphologyEx (threshold_BINARY gray 8 255) MORPH_CLOSE elem) MORPH_OPEN elem)"
  assumes "contours \<noteq> []"
  shows "\<exists>i < length contours.
           extract_lens_mask cv gray =
             drawContours_filled cv (zeros (rows gray) (cols gray)) contours (int i) 255 \<and>
           contourArea (contours ! i) = Max (set (map contourArea contours)) \<and>
           (\<forall>j < i. contourArea (contours ! j) < contourArea (contours ! i))"
proof -
  define i where "i = nat (largest_loop contours 0 0 0)"
  have c: "0 \<le> largest_loop contours 0 0 0 \<and> i < length contours \<and>
         contourArea (contours ! i) = Max (set (map contourArea contours)) \<and>
         (\<forall>k < i. contourArea (contours ! k) < contourArea (contours ! i))"
    unfolding i_def using assms(3) by (rule largest_loop_correct)
  have "extract_lens_mask cv gray =
          drawContours_filled cv (zeros (rows gray) (cols gray)) contours (largest_loop contours 0 0 0) 255"
    using assms(3) by (simp add: extract_lens_mask_def Let_def contours_def elem_def)
  moreover have "largest_loop contours 0 0 0 = int i"
    using c by (simp add: i_def)
  ultimately show ?thesis
    using c by auto
qed


text \<open>
  The theorem at a library that reports six contours, of areas 0, 4, 4, 9, 9, 4: the two
  contours of area 9 tie for the maximum, the earlier one (index 3) is drawn, and the five
  others are discarded.
\<close>

theorem extract_lens_mask_largest_witness:
  "findContours
     (sample_cv_contours
        [[(0, 0), (1, 0)],
         [(0, 0), (0, 2), (2, 2), (2, 0)],
         [(3, 0), (3, 2), (5, 2), (5, 0)],
         [(1, 1), (1, 4), (4, 4), (4, 1)],
         [(0, 0), (0, 3), (3, 3), (3, 0)],
         [(3, 2), (3, 4), (5, 4), (5, 2)]])
     (morphologyEx
        (morphologyEx (threshold_BINARY \<lparr>rows = 5, cols = 6, data = replicate 30 100\<rparr> 8 255)
           MORPH_CLOSE (getStructuringElement sample_cv 15 15))
        MORPH_OPEN (getStructuringElement sample_cv 15 15))
     = [[(0, 0), (1, 0)],
        [(0, 0), (0, 2), (2, 2), (2, 0)],
        [(3, 0), (3, 2), (5, 2), (5, 0)],
        [(1, 1), (1, 4), (4, 4), (4, 1)],
        [(0, 0), (0, 3), (3, 3), (3, 0)],
        [(3, 2), (3, 4), (5, 4), (5, 2)]] \<and>
   map contourArea
     [[(0, 0), (1, 0)],
      [(0, 0), (0, 2), (2, 2), (2, 0)],
      [(3, 0), (3, 2), (5, 2), (5, 0)],
      [(1, 1), (1, 4), (4, 4), (4, 1)],
      [(0, 0), (0, 3), (3, 3), (3, 0)],
      [(3, 2), (3, 4), (5, 4), (5, 2)]] = [0, 4, 4, 9, 9, 4] \<and>
   extract_lens_mask
     (sample_cv_contours
        [[(0, 0), (1, 0)],
         [(0, 0), (0, 2), (2, 2), (2, 0)],
         [(3, 0), (3, 2), (5, 2), (5, 0)],
         [(1, 1), (1, 4), (4, 4), (4, 1)],
         [(0, 0), (0, 3), (3, 3), (3, 0)],
         [(3, 2), (3, 4), (5, 4), (5, 2)]])
     \<lparr>rows = 5, cols = 6, data = replicate 30 100\<rparr>
     = drawContours_filled
         (sample_cv_contours
            [[(0, 0), (1, 0)],
             [(0, 0), (0, 2), (2, 2), (2, 0)],
             [(3, 0), (3, 2), (5, 2), (5, 0)],
             [(1, 1), (1, 4), (4, 4), (4, 1)],
             [(0, 0), (0, 3), (3, 3), (3, 0)],
             [(3, 2), (3, 4), (5, 4), (5, 2)]])
         (zeros 5 6)
         [[(0, 0), (1, 0)],
          [(0, 0), (0, 2), (2, 2), (2, 0)],
          [(3, 0), (3, 2), (5, 2), (5, 0)],
          [(1, 1), (1, 4), (4, 4), (4, 1)],
          [(0, 0), (0, 3), (3, 3), (3, 0)],
          [(3, 2), (3, 4), (5, 4), (5, 2)]]
         3 255 \<and>
   extract_lens_mask
     (sample_cv_contours
        [[(0, 0), (1, 0)],
         [(0, 0), (0, 2), (2, 2), (2, 0)],
         [(3, 0), (3, 2), (5, 2), (5, 0)],
         [(1, 1), (1, 4), (4, 4), (4, 1)],
         [(0, 0), (0, 3), (3, 3), (3, 0)],
         [(3, 2), (3, 4), (5, 4), (5, 2)]])
     \<lparr>rows = 5, cols = 6, data = replicate 30 100\<rparr>
     = \<lparr>rows = 5, cols = 6,
        data = [0, 0, 0, 0, 0, 0,
                0, 255, 255, 255, 255, 0,
                0, 255, 255, 255, 255, 0,
                0, 255, 255, 255, 255, 0,
                0, 255, 255, 255, 255, 0]\<rparr>"
proof -
  let ?gray = "\<lparr>rows = 5, cols = 6, data = replicate 30 (100 :: u8)\<rparr>"
  let ?cs = "[[(0, 0), (1, 0)],
         [(0, 0), (0, 2), (2, 2), (2, 0)],
         [(3, 0), (3, 2), (5, 2), (5, 0)],
         [(1, 1), (1, 4), (4, 4), (4, 1)],
         [(0, 0), (0, 3), (3, 3), (3, 0)],
         [(3, 2), (3, 4), (5, 4), (5 :: int, 2 :: int)]]"
  let ?cv = "sample_cv_contours ?cs"
  have fc: "findContours ?cv m = ?cs" for m
    by (simp add: sample_cv_contours_def)
  have el: "getStructuringElement ?cv 15 15 = getStructuringElement sample_cv 15 15"
    by (simp add: sample_cv_contours_def)
  have ne: "findContours ?cv
     (morphologyEx (morphologyEx (threshold_BINARY ?gray 8 255)
           MORPH_CLOSE (getStructuringElement ?cv 15 15))
        MORPH_OPEN (getStructuringElement ?cv 15 15)) \<noteq> []"
    unfolding fc by simp
  have areas: "map contourArea ?cs = [0, 4, 4, 9, 9, 4]"
    by (simp add: contourArea_def Point2f_def)
  have a: "contourArea (?cs ! 0) = 0" "contourArea (?cs ! 1) = 4" "contourArea (?cs ! 2) = 4"
    "contourArea (?cs ! 3) = 9" "contourArea (?cs ! 4) = 9" "contourArea (?cs ! 5) = 4"
    using areas by simp_all
  note t = extract_lens_mask_largest [OF ne, unfolded fc]
  obtain i where i: "i < length ?cs"
    and e: "extract_lens_mask ?cv ?gray =
            drawContours_filled ?cv (zeros (rows ?gray) (cols ?gray)) ?cs (int i) 255"
    and mx: "contourArea (?cs ! i) = Max (set (map contourArea ?cs))"
    and first: "\<forall>j < i. contourArea (?cs ! j) < contourArea (?cs ! i)"
    using t by blast
  have m9: "Max (set (map contourArea ?cs)) = 9"
    unfolding areas by simp
  from i have "i = 0 \<or> i = 1 \<or> i = 2 \<or> i = 3 \<or> i = 4 \<or> i = 5"
    by (simp add: less_Suc_eq numeral_eq_Suc) 
  then have i3: "int i = 3"
  proof (elim disjE)
    assume i4: "i = 4"
    have "contourArea (?cs ! 3) < contourArea (?cs ! i)"
      by (rule first [rule_format]) (simp add: i4)
    then show ?thesis unfolding i4 a by simp
  qed (use mx a in \<open>simp_all add: m9\<close>)
  have e3: "extract_lens_mask ?cv ?gray = drawContours_filled ?cv (zeros 5 6) ?cs 3 255"
    using e unfolding i3 by simp
  have d: "drawContours_filled ?cv (zeros 5 6) ?cs 3 255 =
     \<lparr>rows = 5, cols = 6,
        data = [0, 0, 0, 0, 0, 0,
                0, 255, 255, 255, 255, 0,
                0, 255, 255, 255, 255, 0,
                0, 255, 255, 255, 255, 0,
                0, 255, 255, 255, 255, 0]\<rparr>"
    by code_simp
  show ?thesis
    by (intro conjI) (rule fc [unfolded el], rule areas, rule e3, rule trans [OF e3 d])
qed

subsection \<open>The all-zero image\<close>


lemma mat_at_zeros [simp]: "y < r \<Longrightarrow> x < c \<Longrightarrow> mat_at (zeros r c) y x = 0"
  by (simp add: zeros_def)

lemma rows_zeros [simp]: "rows (zeros r c) = r" and cols_zeros [simp]: "cols (zeros r c) = c"
  by (simp_all add: zeros_def)

lemma mk_Mat_zero:
  assumes "\<And>y x. y < r \<Longrightarrow> x < c \<Longrightarrow> f y x = 0"
  shows "mk_Mat r c f = zeros r c"
  unfolding zeros_def using assms by (rule mk_Mat_cong)

lemma threshold_zeros: "0 \<le> t \<Longrightarrow> threshold_BINARY (zeros r c) t v = zeros r c"
  by (simp add: threshold_BINARY_def mk_Mat_zero)

lemma neighbours_zeros: "v \<in> set (neighbours (zeros r c) k y x) \<Longrightarrow> v = 0"
  by (auto simp: neighbours_def)

lemma fold_max_zeros:
  assumes "\<And>v. v \<in> set xs \<Longrightarrow> v = (0 :: u8)"
  shows "fold max xs 0 = 0"
  using assms
proof (induction xs)
  case Nil
  show ?case by simp
next
  case (Cons x xs)
  have x: "x = 0" by (rule Cons.prems) simp
  have "fold max xs 0 = 0" by (rule Cons.IH) (simp add: Cons.prems)
  then show ?case by (simp add: x)
qed

lemma fold_min_zero:
  assumes "(0 :: u8) \<in> set xs"
  shows "fold min xs a = 0"
  using assms
proof (induction xs arbitrary: a)
  case Nil
  then show ?case by simp
next
  case (Cons x xs)
  have z: "fold min xs (0 :: u8) = 0" for xs :: "u8 list"
    by (induction xs) simp_all
  from Cons show ?case
    by (cases "x = 0") (simp_all add: z)
qed

lemma dilate_zeros: "dilate (zeros r c) k = zeros r c"
  unfolding dilate_def
  by (simp add: mk_Mat_zero fold_max_zeros neighbours_zeros)

lemma anchor_in_neighbours:
  assumes "(0, 0) \<in> set k" and "y < rows src" and "x < cols src"
  shows "mat_at src y x \<in> set (neighbours src k y x)"
  using assms by (force simp: neighbours_def)

lemma erode_zeros:
  assumes "(0, 0) \<in> set k"
  shows "erode (zeros r c) k = zeros r c"
proof -
  have "fold min (neighbours (zeros r c) k y x) 255 = 0" if "y < r" "x < c" for y x
    using anchor_in_neighbours [OF assms, of y "zeros r c" x] that
    by (intro fold_min_zero) simp
  then show ?thesis
    by (simp add: erode_def mk_Mat_zero)
qed

lemma bitwise_and_zeros:
  assumes "rows a = r" and "cols a = c"
  shows "bitwise_and a (zeros r c) = Inr (zeros r c)"
  using assms by (simp add: bitwise_and_def mk_Mat_zero)

lemma analyze_defects_no_contours:
  "findContours cv m = [] \<Longrightarrow> analyze_defects cv m = []"
  by (simp add: analyze_defects_def)

lemma defect_ratio_zeros: "defect_ratio a (zeros r c) = 0"
  by (simp add: defect_ratio_def)

lemma verdict_pass_zero: "verdict_pass 0"
  unfolding verdict_pass_def f32_5e_6 by simp

text \<open>
  C7. For the all-zero image of any dimensions, the lens segmenter returns the all-zero mask
  of these dimensions, and the analysis that follows reports no defect, ratio 0 and pass.
  The library is assumed to find no contour in an all-zero image, to have the anchor in its
  15 by 15 structuring element, and to keep the image size in the normalisation and in the
  contrast equalisation.
\<close>

theorem all_zero_image:
  assumes anchor: "(0, 0) \<in> set (getStructuringElement cv 15 15)"
    and blank: "findContours cv (zeros r c) = []"
    and normalize_size: "\<And>f m. rows (normalize_minmax cv f 0 255 m) = rows m \<and>
                              cols (normalize_minmax cv f 0 255 m) = cols m"
    and clahe_size: "\<And>m. rows (clahe_apply cv 3 (8, 8) m) = rows m \<and>
                         cols (clahe_apply cv 3 (8, 8) m) = cols m"
  shows "extract_lens_mask cv (zeros r c) = zeros r c \<and>
         btn_analyze_click cv (zeros r c) (extract_lens_mask cv (zeros r c)) blur_size threshold =
           Inr \<lparr>stored_corrected = correct_illumination cv (zeros r c) (zeros r c) blur_size,
                stored_defects = [],
                verdict_ratio = 0,
                verdict = True,
                stored_display =
                  build_annotated_display cv
                    (correct_illumination cv (zeros r c) (zeros r c) blur_size) (zeros r c) [] True 0\<rparr>"
proof -
  have seg: "extract_lens_mask cv (zeros r c) = zeros r c"
    using anchor blank
    by (simp add: extract_lens_mask_def Let_def threshold_zeros dilate_zeros erode_zeros)
  define corrected where "corrected = correct_illumination cv (zeros r c) (zeros r c) blur_size"
  have cd: "rows corrected = r" "cols corrected = c"
    using normalize_size by (simp_all add: corrected_def correct_illumination_def Let_def)
  have dd: "detect_defects cv corrected (zeros r c) threshold = Inr (zeros r c)"
    unfolding detect_defects_def Let_def
    by (rule bitwise_and_zeros) (simp_all add: cd clahe_size)
  show ?thesis
    using blank
    by (simp add: seg btn_analyze_click_def Let_def corrected_def [symmetric] dd
        analyze_defects_no_contours defect_ratio_zeros verdict_pass_zero)
qed

theorem all_zero_image_witness:
  "(0, 0) \<in> set (getStructuringElement sample_cv 15 15) \<and>
   findContours sample_cv (zeros 2 2) = [] \<and>
   extract_lens_mask sample_cv (zeros 2 2) = zeros 2 2 \<and>
   btn_analyze_click sample_cv (zeros 2 2) (extract_lens_mask sample_cv (zeros 2 2)) 100 30 =
     Inr \<lparr>stored_corrected = correct_illumination sample_cv (zeros 2 2) (zeros 2 2) 100,
          stored_defects = [],
          verdict_ratio = 0,
          verdict = True,
          stored_display =
            build_annotated_display sample_cv
              (correct_illumination sample_cv (zeros 2 2) (zeros 2 2) 100) (zeros 2 2) [] True 0\<rparr>"
proof -
  have anchor: "(0, 0) \<in> set (getStructuringElement sample_cv 15 15)"
    by code_simp
  have blank: "findContours sample_cv (zeros 2 2) = []"
    by code_simp
  have normalize_size: "rows (normalize_minmax sample_cv f 0 255 m) = rows m \<and>
      cols (normalize_minmax sample_cv f 0 255 m) = cols m" for f m
    by (simp add: sample_cv_def)
  have clahe_size: "rows (clahe_apply sample_cv 3 (8, 8) m) = rows m \<and>
      cols (clahe_apply sample_cv 3 (8, 8) m) = cols m" for m
    by (simp add: sample_cv_def)
  note t = all_zero_image [of sample_cv 2 2 100 30, OF anchor blank normalize_size clahe_size]
  show ?thesis
    by (intro conjI) (rule anchor, rule blank, rule t [THEN conjunct1], rule t [THEN conjunct2])
qed

subsection \<open>Area floor and centroid\<close>


lemma Point2f_exact:
  assumes "\<bar>fst p\<bar> < 2 ^ 24" and "\<bar>snd p\<bar> < 2 ^ 24"
  shows "Point2f p = (of_int (fst p), of_int (snd p))"
  using fl_round_of_int [of "fst p" 24 "- 126"] fl_round_of_int [of "snd p" 24 "- 126"] assms
  by (simp add: Point2f_def f32_def)

lemma contourArea_loop_exact:
  assumes "\<forall>p \<in> set c. \<bar>fst p\<bar> < 2 ^ 24 \<and> \<bar>snd p\<bar> < 2 ^ 24"
  shows "contourArea_loop (of_int px, of_int py) c a =
         fst (moments_loop (of_int px, of_int py) c (a, b1, b2))"
  using assms
proof (induction c arbitrary: px py a b1 b2)
  case Nil
  show ?case by simp
next
  case (Cons pt pts)
  have p: "Point2f pt = (of_int (fst pt), of_int (snd pt))"
    using Cons.prems by (intro Point2f_exact) simp_all
  show ?case
    using Cons.IH [of "fst pt" "snd pt"] Cons.prems
    by (simp add: p Let_def)
qed

lemma moments_loop_Ints:
  assumes "a \<in> \<int>"
  shows "fst (moments_loop (of_int px, of_int py) c (a, b1, b2)) \<in> \<int>"
  using assms
proof (induction c arbitrary: px py a b1 b2)
  case Nil
  then show ?case by simp
next
  case (Cons pt pts)
  have "a + (of_int px * of_int (snd pt) - of_int (fst pt) * of_int py) \<in> \<int>"
    using Cons.prems by (intro Ints_add Ints_diff Ints_mult Ints_of_int)
  then show ?case
    using Cons.IH [of _ "fst pt" "snd pt"] by (simp add: Let_def)
qed

lemma retained_contour_m00:
  assumes bound: "\<forall>p \<in> set c. \<bar>fst p\<bar> < 2 ^ 24 \<and> \<bar>snd p\<bar> < 2 ^ 24"
    and kept: "2 \<le> f32 (contourArea c)"
  shows "m00 (moments c) = contourArea c \<and> 2 \<le> m00 (moments c)"
proof -
  have ne: "c \<noteq> []"
    using kept by (auto simp: contourArea_def)
  obtain a00 a10 a01 where ml:
    "moments_loop (of_int (fst (last c)), of_int (snd (last c))) c (0, 0, 0) = (a00, a10, a01)"
    by (cases "moments_loop (rat_of_int (fst (last c)), rat_of_int (snd (last c))) c (0, 0, 0)")
  have lastb: "\<bar>fst (last c)\<bar> < 2 ^ 24 \<and> \<bar>snd (last c)\<bar> < 2 ^ 24"
    using bound ne last_in_set by blast
  have "contourArea_loop (Point2f (last c)) c 0 = a00"
    using contourArea_loop_exact [OF bound, of "fst (last c)" "snd (last c)" 0 0 0] lastb
    by (simp add: Point2f_exact ml)
  then have area: "contourArea c = \<bar>a00\<bar> / 2"
    using ne by (simp add: contourArea_def)
  have int: "a00 \<in> \<int>"
    using moments_loop_Ints [of 0 "fst (last c)" "snd (last c)" c 0 0] by (simp add: ml)
  have "3 / 2 < contourArea c"
  proof (rule ccontr)
    assume "\<not> 3 / 2 < contourArea c"
    then have "f32 (contourArea c) \<le> f32 (3 / 2)"
      by (intro f32_mono contourArea_nonneg) simp
    with kept show False by (simp add: f32_3_2)
  qed
  then have "3 < \<bar>a00\<bar>" by (simp add: area)
  moreover from int obtain k :: int where k: "a00 = of_int k" by (auto elim: Ints_cases)
  ultimately have "3 < \<bar>k\<bar>" by (simp flip: of_int_abs)
  then have "4 \<le> \<bar>k\<bar>" by simp
  then have four: "4 \<le> \<bar>a00\<bar>" by (simp add: k flip: of_int_abs)
  then have eps: "FLT_EPSILON < \<bar>a00\<bar>" by (simp add: FLT_EPSILON_def)
  have "m00 (moments c) = \<bar>a00\<bar> / 2"
    using ne eps by (auto simp: moments_def ml Let_def abs_if)
  then show ?thesis
    using four by (simp add: area)
qed

lemma analyze_defects_loop_records:
  assumes "d \<in> set (analyze_defects_loop cs [])"
  shows "\<exists>c \<in> set cs. 2 \<le> f32 (contourArea c) \<and> area d = f32 (contourArea c) \<and>
           center d = centroid (moments c)"
  using assms
proof (induction cs)
  case Nil
  then show ?case by simp
next
  case (Cons c cs)
  show ?case
  proof (cases "f32 (contourArea c) < 2")
    case True
    with Cons show ?thesis by simp
  next
    case False
    with Cons.prems analyze_defects_loop_append [of cs "[x]" for x]
    consider "area d = f32 (contourArea c) \<and> center d = centroid (moments c)"
      | "d \<in> set (analyze_defects_loop cs [])"
      by (auto simp: Let_def)
    then show ?thesis
      using False Cons.IH by cases auto
  qed
qed

text \<open>
  C6. Every record returned by the classifier has an area of at least \<open>2.0\<close>. When the
  contour points are pixel coordinates below \<open>2 ^ 24\<close> in absolute value (so that their
  conversion to \<^verbatim>\<open>float\<close> in \<^verbatim>\<open>contourArea\<close> is exact), the moment \<^verbatim>\<open>m00\<close> of
  every retained contour equals its area and is at least 2, and the centre of every record
  is defined: the centroid never divides by zero.
\<close>

theorem retained_defects_area_floor:
  "(\<forall>d \<in> set (analyze_defects cv defect_mask). 2 \<le> area d) \<and>
   ((\<forall>c \<in> set (findContours cv defect_mask). \<forall>p \<in> set c. \<bar>fst p\<bar> < 2 ^ 24 \<and> \<bar>snd p\<bar> < 2 ^ 24) \<longrightarrow>
    (\<forall>c \<in> set (findContours cv defect_mask). 2 \<le> f32 (contourArea c) \<longrightarrow>
       m00 (moments c) = contourArea c \<and> 2 \<le> m00 (moments c)) \<and>
    (\<forall>d \<in> set (analyze_defects cv defect_mask). center d \<noteq> None))"
proof (intro conjI impI ballI)
  fix d assume "d \<in> set (analyze_defects cv defect_mask)"
  then show "2 \<le> area d"
    using analyze_defects_loop_records [of d "findContours cv defect_mask"]
    by (auto simp: analyze_defects_def)
next
  fix c
  assume "\<forall>c \<in> set (findContours cv defect_mask). \<forall>p \<in> set c. \<bar>fst p\<bar> < 2 ^ 24 \<and> \<bar>snd p\<bar> < 2 ^ 24"
    and "c \<in> set (findContours cv defect_mask)" and "2 \<le> f32 (contourArea c)"
  then show "m00 (moments c) = contourArea c" and "2 \<le> m00 (moments c)"
    using retained_contour_m00 [of c] by auto
next
  fix d
  assume b: "\<forall>c \<in> set (findContours cv defect_mask). \<forall>p \<in> set c. \<bar>fst p\<bar> < 2 ^ 24 \<and> \<bar>snd p\<bar> < 2 ^ 24"
    and "d \<in> set (analyze_defects cv defect_mask)"
  then obtain c where c: "c \<in> set (findContours cv defect_mask)" "2 \<le> f32 (contourArea c)"
    "center d = centroid (moments c)"
    using analyze_defects_loop_records [of d "findContours cv defect_mask"]
    by (auto simp: analyze_defects_def)
  then have "2 \<le> m00 (moments c)"
    using retained_contour_m00 [of c] b by auto
  then show "center d \<noteq> None"
    by (simp add: c(3) centroid_def)
qed

theorem retained_defects_area_floor_witness:
  "findContours sample_cv
     \<lparr>rows = 4, cols = 4, data = [255, 255, 255, 255, 255, 255, 255, 255, 255, 255, 255, 255, 255, 255, 255, 255]\<rparr>
     = [[(0, 0), (0, 3), (3, 3), (3, 0)]] \<and>
   2 \<le> f32 (contourArea [(0, 0), (0, 3), (3, 3), (3, 0)]) \<and>
   m00 (moments [(0, 0), (0, 3), (3, 3), (3, 0)]) = contourArea [(0, 0), (0, 3), (3, 3), (3, 0)] \<and>
   2 \<le> m00 (moments [(0, 0), (0, 3), (3, 3), (3, 0)]) \<and>
   map area (analyze_defects sample_cv
     \<lparr>rows = 4, cols = 4, data = [255, 255, 255, 255, 255, 255, 255, 255, 255, 255, 255, 255, 255, 255, 255, 255]\<rparr>)
     = [9] \<and>
   list_all (\<lambda>d. 2 \<le> area d) (analyze_defects sample_cv
     \<lparr>rows = 4, cols = 4, data = [255, 255, 255, 255, 255, 255, 255, 255, 255, 255, 255, 255, 255, 255, 255, 255]\<rparr>) \<and>
   list_all (\<lambda>d. center d \<noteq> None) (analyze_defects sample_cv
     \<lparr>rows = 4, cols = 4, data = [255, 255, 255, 255, 255, 255, 255, 255, 255, 255, 255, 255, 255, 255, 255, 255]\<rparr>)"
proof -
  let ?M = "\<lparr>rows = 4, cols = 4,
    data = [255, 255, 255, 255, 255, 255, 255, 255, 255, 255, 255, 255, 255, 255, 255, 255 :: u8]\<rparr>"
  let ?c = "[(0, 0), (0, 3), (3, 3), (3 :: int, 0 :: int)]"
  have fc: "findContours sample_cv ?M = [?c]"
    by code_simp
  have a: "contourArea ?c = 9"
    by (simp add: contourArea_def Point2f_def)
  have kept: "2 \<le> f32 (contourArea ?c)"
    by (simp add: a)
  have ar: "map area (analyze_defects sample_cv ?M) = [9]"
    by (simp add: analyze_defects_def fc a Let_def)
  have bound: "\<forall>c \<in> set (findContours sample_cv ?M). \<forall>p \<in> set c. \<bar>fst p\<bar> < 2 ^ 24 \<and> \<bar>snd p\<bar> < 2 ^ 24"
    by (simp add: fc)
  have mem: "?c \<in> set (findContours sample_cv ?M)"
    by (simp add: fc)
  note t = retained_defects_area_floor [of sample_cv ?M]
  note t2 = t [THEN conjunct2, THEN mp, OF bound]
  note m = t2 [THEN conjunct1, THEN bspec, OF mem, THEN mp, OF kept]
  show ?thesis
    by (intro conjI)
      (rule fc, rule kept, rule m [THEN conjunct1], rule m [THEN conjunct2], rule ar,
       rule iffD2 [OF list_all_iff t [THEN conjunct1]],
       rule iffD2 [OF list_all_iff t2 [THEN conjunct2]])
qed

end
